theory Spec2Isabelle
  imports Complex_Main "HOL-Library.Word"
begin

section \<open>JavaScript values used by the program\<close>

text \<open>
  A JavaScript string is a sequence of 16-bit code units, and \<open>length\<close> counts code
  units. \<open>js\<close> writes an ASCII literal as such a string.
\<close>

type_synonym jsstring = "16 word list"

definition js :: "string \<Rightarrow> jsstring" where
  "js s = map of_char s"

text \<open>
  \<open>String.prototype.trim\<close> strips the code units that ECMAScript calls WhiteSpace or
  LineTerminator from both ends: TAB, LF, VT, FF, CR, SP, NBSP, U+1680, U+2000 to U+200A,
  U+2028, U+2029, U+202F, U+205F, U+3000 and U+FEFF.
\<close>

definition isWhiteSpace :: "16 word \<Rightarrow> bool" where
  "isWhiteSpace c \<longleftrightarrow>
     c = 0x9 \<or> c = 0xA \<or> c = 0xB \<or> c = 0xC \<or> c = 0xD \<or> c = 0x20 \<or> c = 0xA0 \<or>
     c = 0x1680 \<or> (0x2000 \<le> c \<and> c \<le> 0x200A) \<or> c = 0x2028 \<or> c = 0x2029 \<or>
     c = 0x202F \<or> c = 0x205F \<or> c = 0x3000 \<or> c = 0xFEFF"

definition trim :: "jsstring \<Rightarrow> jsstring" where
  "trim s = rev (dropWhile isWhiteSpace (rev (dropWhile isWhiteSpace s)))"

text \<open>
  A JavaScript number is NaN, an infinity or a finite value. The program only compares
  numbers and prints them, so a finite value is kept as the rational it denotes (every
  finite double is one; \<open>-0\<close> and \<open>0\<close> compare equal and are not told apart here).
\<close>

datatype number = NaN | NegInfinity | Finite rat | PosInfinity

text \<open>
  The abstract relational comparison \<open>x < y\<close> of ECMAScript: undefined (\<open>None\<close>)
  when an operand is NaN. The four operators are read off it as the language defines
  them, so every comparison with NaN is false.
\<close>

fun number_lt :: "number \<Rightarrow> number \<Rightarrow> bool option" where
  "number_lt NaN y = None"
| "number_lt x NaN = None"
| "number_lt x NegInfinity = Some False"
| "number_lt NegInfinity y = Some True"
| "number_lt PosInfinity y = Some False"
| "number_lt (Finite a) PosInfinity = Some True"
| "number_lt (Finite a) (Finite b) = Some (a < b)"

definition js_lt :: "number \<Rightarrow> number \<Rightarrow> bool" where
  "js_lt x y \<longleftrightarrow> number_lt x y = Some True"

definition js_gt :: "number \<Rightarrow> number \<Rightarrow> bool" where
  "js_gt x y \<longleftrightarrow> number_lt y x = Some True"

definition js_le :: "number \<Rightarrow> number \<Rightarrow> bool" where
  "js_le x y \<longleftrightarrow> number_lt y x = Some False"

definition js_ge :: "number \<Rightarrow> number \<Rightarrow> bool" where
  "js_ge x y \<longleftrightarrow> number_lt x y = Some False"

text \<open>\<open>s.length\<close> as a number.\<close>

definition length_of :: "jsstring \<Rightarrow> number" where
  "length_of s = Finite (of_nat (length s))"

text \<open>
  Two conversions of the language are left to the runtime: \<open>Number.prototype.toString\<close>
  (also what a template literal applies to a number) and the unary \<open>+\<close> on a string.
  Both depend on how doubles are printed and rounded, so the program is modelled for any
  pair of such functions.
\<close>

record Runtime =
  Number_toString :: "number \<Rightarrow> jsstring"
  StringToNumber :: "jsstring \<Rightarrow> number"

datatype jsvalue = Str jsstring | Num number

section \<open>The validator\<close>

text \<open>
  \<^verbatim>\<open>interface Validatable { value?: string | number; required?: boolean;
  minLength?: number; maxLength?: number; min?: number; max?: number }\<close>.
  An optional property that is absent is \<open>None\<close>.
\<close>

record Validatable =
  value' :: "jsvalue option"
  required :: "bool option"
  minLength :: "number option"
  maxLength :: "number option"
  min' :: "number option"
  max' :: "number option"

text \<open>\<^verbatim>\<open>validatableInput.value?.toString() || ""\<close>\<close>

definition stringValue :: "Runtime \<Rightarrow> Validatable \<Rightarrow> jsstring" where
  "stringValue rt v =
     (let s = (case value' v of
                 None \<Rightarrow> None
               | Some (Str t) \<Rightarrow> Some t
               | Some (Num x) \<Rightarrow> Some (Number_toString rt x))
      in case s of None \<Rightarrow> [] | Some t \<Rightarrow> (if t = [] then [] else t))"

text \<open>\<^verbatim>\<open>typeof validatableInput.value === "string"\<close> and \<^verbatim>\<open>=== "number"\<close>\<close>

fun is_string :: "jsvalue option \<Rightarrow> bool" where
  "is_string (Some (Str t)) = True"
| "is_string _ = False"

fun is_number :: "jsvalue option \<Rightarrow> bool" where
  "is_number (Some (Num x)) = True"
| "is_number _ = False"

fun number_of :: "jsvalue option \<Rightarrow> number" where
  "number_of (Some (Num x)) = x"
| "number_of _ = NaN"

text \<open>
  \<open>validate\<close>, statement by statement: \<open>isValid\<close> starts true and each of the five
  \<open>if\<close> blocks may conjoin one test to it.
\<close>

definition validate :: "Runtime \<Rightarrow> Validatable \<Rightarrow> bool" where
  "validate rt v =
     (let isValid0 = True;
          isValid1 = (if required v = Some True
                      then isValid0 \<and> length (trim (stringValue rt v)) \<noteq> 0
                      else isValid0);
          isValid2 = (if minLength v \<noteq> None \<and> is_string (value' v)
                      then isValid1 \<and> js_gt (length_of (stringValue rt v)) (the (minLength v))
                      else isValid1);
          isValid3 = (if maxLength v \<noteq> None \<and> is_string (value' v)
                      then isValid2 \<and> js_gt (length_of (stringValue rt v)) (the (maxLength v))
                      else isValid2);
          isValid4 = (if min' v \<noteq> None \<and> is_number (value' v)
                      then isValid3 \<and> js_ge (number_of (value' v)) (the (min' v))
                      else isValid3);
          isValid5 = (if max' v \<noteq> None \<and> is_number (value' v)
                      then isValid4 \<and> js_le (number_of (value' v)) (the (max' v))
                      else isValid4)
      in isValid5)"

section \<open>The project store\<close>

datatype ProjectStatus = Active | Finished

record Project =
  id' :: jsstring
  title :: jsstring
  description :: jsstring
  people :: number
  status :: ProjectStatus

text \<open>
  The store keeps its projects in one array and hands copies of it to its listeners, and
  each list component keeps an array of its own. Arrays are therefore objects in a heap:
  an array is named by its address, and the heap is the list of all arrays allocated so
  far. No statement of the program assigns to a field of a \<open>Project\<close>, so the elements
  are kept as values.
\<close>

type_synonym addr = nat

text \<open>
  The only listener the program registers is the arrow function of
  \<open>ProjectList.configure\<close>; it closes over \<open>this\<close>, the list component, named here by
  its position among the list components.
\<close>

datatype Listener = ListListener nat

record ProjectState =
  listeners :: "Listener list"
  projects :: addr

section \<open>The page\<close>

datatype ListType = active | finished

fun type_str :: "ListType \<Rightarrow> jsstring" where
  "type_str active = js ''active''"
| "type_str finished = js ''finished''"

text \<open>The \<open>li\<close> element of a project item, with the text of its \<open>h2\<close>, \<open>h3\<close> and \<open>p\<close>.\<close>

record LiElement =
  li_id :: jsstring
  li_h2 :: jsstring
  li_h3 :: jsstring
  li_p :: jsstring

record ProjectItem =
  project :: Project
  element :: LiElement

text \<open>
  A list component with its \<open>section\<close> element: the element's id, the text of its
  \<open>h2\<close>, and its \<open>ul\<close> (id, children, and whether its class list holds
  \<open>droppable\<close>).
\<close>

record ProjectList =
  type' :: ListType
  assignedProjects :: addr
  section_id :: jsstring
  section_h2 :: jsstring
  ul_id :: jsstring
  ul_children :: "ProjectItem list"
  ul_droppable :: bool

text \<open>The form component: the current \<open>value\<close> of each of its three input elements.\<close>

record ProjectInput =
  titleInputElement :: jsstring
  descriptionInputElement :: jsstring
  peopleInputElement :: jsstring

text \<open>
  The whole state of the running page: the heap of arrays, the singleton store, the list
  components in document order, the form, the texts shown by \<open>alert\<close> so far, and a log
  of the listener invocations made so far (which listener, with which array).
\<close>

record World =
  arrays :: "Project list list"
  projectState :: ProjectState
  projectLists :: "ProjectList list"
  projectInput :: ProjectInput
  alerts :: "jsstring list"
  calls :: "(Listener \<times> addr) list"

subsection \<open>Arrays\<close>

text \<open>\<open>a.push(x)\<close> changes the array in place.\<close>

definition push :: "addr \<Rightarrow> Project \<Rightarrow> World \<Rightarrow> World" where
  "push a x w = w\<lparr>arrays := (arrays w)[a := arrays w ! a @ [x]]\<rparr>"

text \<open>\<open>a.slice()\<close> and \<open>a.filter(f)\<close> allocate a new array and return it.\<close>

definition slice :: "addr \<Rightarrow> World \<Rightarrow> addr \<times> World" where
  "slice a w = (length (arrays w), w\<lparr>arrays := arrays w @ [arrays w ! a]\<rparr>)"

definition filter_array :: "(Project \<Rightarrow> bool) \<Rightarrow> addr \<Rightarrow> World \<Rightarrow> addr \<times> World" where
  "filter_array f a w = (length (arrays w), w\<lparr>arrays := arrays w @ [filter f (arrays w ! a)]\<rparr>)"

text \<open>An array literal \<open>[]\<close>.\<close>

definition new_array :: "World \<Rightarrow> addr \<times> World" where
  "new_array w = (length (arrays w), w\<lparr>arrays := arrays w @ [[]]\<rparr>)"

subsection \<open>The document\<close>

text \<open>
  Modelled from the spec: the markup templates (the page's HTML is not among the
  sources). The spec fixes one \<open>h2\<close>, one \<open>h3\<close> and one paragraph in the single-item
  row, one \<open>h2\<close> and one list in the list container, and the three fields of the form;
  the templates are taken to carry no ids, no text and empty fields.
\<close>

definition single_project_template :: LiElement where
  "single_project_template = \<lparr>li_id = [], li_h2 = [], li_h3 = [], li_p = []\<rparr>"

definition project_list_template :: "ListType \<Rightarrow> addr \<Rightarrow> ProjectList" where
  "project_list_template t a =
     \<lparr>type' = t, assignedProjects = a, section_id = [], section_h2 = [],
      ul_id = [], ul_children = [], ul_droppable = False\<rparr>"

definition project_input_template :: ProjectInput where
  "project_input_template =
     \<lparr>titleInputElement = [], descriptionInputElement = [], peopleInputElement = []\<rparr>"

text \<open>
  \<open>document.getElementById\<close> for the id of a list: the first list component, in
  document order, whose \<open>ul\<close> has that id; \<open>None\<close> is \<open>null\<close>. The other ids of the
  page are those of the templates, of the form and its fields, of the sections
  (\<open>active-projects\<close>, \<open>finished-projects\<close>) and of the items, which are printed
  random numbers.
\<close>

fun find_ul :: "jsstring \<Rightarrow> ProjectList list \<Rightarrow> nat option" where
  "find_ul i [] = None"
| "find_ul i (l # ls) = (if ul_id l = i then Some 0 else map_option Suc (find_ul i ls))"

definition getUlById :: "jsstring \<Rightarrow> World \<Rightarrow> nat option" where
  "getUlById i w = find_ul i (projectLists w)"

subsection \<open>Project items\<close>

text \<open>\<^verbatim>\<open>get persons()\<close>\<close>

definition persons :: "Runtime \<Rightarrow> ProjectItem \<Rightarrow> jsstring" where
  "persons rt this =
     (if people (project this) = Finite 1
      then js ''1 Person''
      else Number_toString rt (people (project this)) @ js '' Persons'')"

definition renderContent :: "Runtime \<Rightarrow> ProjectItem \<Rightarrow> ProjectItem" where
  "renderContent rt this =
     this\<lparr>element := (element this)
       \<lparr>li_h2 := title (project this),
        li_h3 := persons rt this @ js '' assigned'',
        li_p := description (project this)\<rparr>\<rparr>"

text \<open>
  \<open>new ProjectItem(hostId, project)\<close>. The base constructor clones the template, gives
  the clone the id \<open>project.id\<close> when that string is not empty, and appends it to the
  host found by id (a \<open>TypeError\<close>, here \<open>None\<close>, when there is none); then
  \<open>renderContent\<close> fills the clone in place. \<open>configure\<close> binds the two drag handlers
  of the item to its element.
\<close>

definition import_single_project :: "jsstring \<Rightarrow> LiElement" where
  "import_single_project newElementId =
     (if newElementId \<noteq> []
      then single_project_template\<lparr>li_id := newElementId\<rparr>
      else single_project_template)"

definition ProjectItem_of :: "Runtime \<Rightarrow> Project \<Rightarrow> ProjectItem" where
  "ProjectItem_of rt prj =
     renderContent rt \<lparr>project = prj, element = import_single_project (id' prj)\<rparr>"

definition new_ProjectItem :: "Runtime \<Rightarrow> jsstring \<Rightarrow> Project \<Rightarrow> World \<Rightarrow> World option" where
  "new_ProjectItem rt hostId prj w =
     (case getUlById hostId w of
        None \<Rightarrow> None
      | Some h \<Rightarrow>
          let this = ProjectItem_of rt prj;
              host = projectLists w ! h
          in Some (w\<lparr>projectLists :=
                (projectLists w)[h := host\<lparr>ul_children := ul_children host @ [this]\<rparr>]\<rparr>))"

text \<open>The drag handlers of an item; \<open>setData\<close> replaces the entry of its format.\<close>

record DataTransfer =
  data :: "jsstring \<rightharpoonup> jsstring"
  effectAllowed :: jsstring

definition dragStartHandler :: "ProjectItem \<Rightarrow> DataTransfer \<Rightarrow> DataTransfer" where
  "dragStartHandler this dt =
     dt\<lparr>data := (data dt)(js ''text/plain'' \<mapsto> id' (project this)),
        effectAllowed := js ''move''\<rparr>"

definition dragEndHandler :: "ProjectItem \<Rightarrow> World \<Rightarrow> World" where
  "dragEndHandler this w = w"

subsection \<open>Project lists\<close>

definition list_id :: "ListType \<Rightarrow> jsstring" where
  "list_id t = type_str t @ js ''-projects-list''"

text \<open>The loop of \<open>renderProjects\<close>: one new item per assigned project.\<close>

fun renderItems :: "Runtime \<Rightarrow> nat \<Rightarrow> Project list \<Rightarrow> World \<Rightarrow> World option" where
  "renderItems rt c [] w = Some w"
| "renderItems rt c (prj # ps) w =
     (let hostId = ul_id (projectLists w ! c)
      in case new_ProjectItem rt hostId prj w of
           None \<Rightarrow> None
         | Some w' \<Rightarrow> renderItems rt c ps w')"

text \<open>
  \<open>renderProjects\<close> of the list component \<open>c\<close>: the list element is looked up by id and
  emptied (\<open>innerHTML = ""\<close>, a \<open>TypeError\<close> on \<open>null\<close>), then the loop runs.
\<close>

definition renderProjects :: "Runtime \<Rightarrow> nat \<Rightarrow> World \<Rightarrow> World option" where
  "renderProjects rt c w =
     (let this = projectLists w ! c;
          listId = list_id (type' this)
      in case getUlById listId w of
           None \<Rightarrow> None
         | Some u \<Rightarrow>
             let listEl = projectLists w ! u;
                 w1 = w\<lparr>projectLists := (projectLists w)[u := listEl\<lparr>ul_children := []\<rparr>]\<rparr>
             in renderItems rt c (arrays w1 ! assignedProjects (projectLists w1 ! c)) w1)"

text \<open>The predicate the listener passes to \<open>filter\<close>.\<close>

definition relevant :: "ListType \<Rightarrow> Project \<Rightarrow> bool" where
  "relevant t prj =
     (if t = active then status prj = Active else status prj = Finished)"

text \<open>Calling a listener with the array \<open>a\<close>: the body of the arrow function.\<close>

fun invoke :: "Runtime \<Rightarrow> Listener \<Rightarrow> addr \<Rightarrow> World \<Rightarrow> World option" where
  "invoke rt (ListListener c) a w =
     (let this = projectLists w ! c;
          (relevantProjects, w1) = filter_array (relevant (type' this)) a w;
          w2 = w1\<lparr>projectLists :=
                 (projectLists w1)[c := (projectLists w1 ! c)\<lparr>assignedProjects := relevantProjects\<rparr>]\<rparr>
      in renderProjects rt c w2)"

text \<open>
  The drop-target handlers of the list \<open>c\<close>. \<open>types\<close> is \<open>event.dataTransfer?.types\<close>
  (\<open>None\<close> without a transfer); the class is set on the component's own \<open>ul\<close>.
\<close>

definition dragOverHandler :: "nat \<Rightarrow> jsstring list option \<Rightarrow> World \<Rightarrow> World" where
  "dragOverHandler c types w =
     (case types of
        Some (t # ts) \<Rightarrow>
          if t = js ''text/plain''
          then w\<lparr>projectLists := (projectLists w)[c := (projectLists w ! c)\<lparr>ul_droppable := True\<rparr>]\<rparr>
          else w
      | _ \<Rightarrow> w)"

definition dragLeaveHandler :: "nat \<Rightarrow> World \<Rightarrow> World" where
  "dragLeaveHandler c w =
     w\<lparr>projectLists := (projectLists w)[c := (projectLists w ! c)\<lparr>ul_droppable := False\<rparr>]\<rparr>"

definition dropHandler :: "nat \<Rightarrow> World \<Rightarrow> World" where
  "dropHandler c w = w"

subsection \<open>The store's operations\<close>

definition addListener :: "Listener \<Rightarrow> World \<Rightarrow> World" where
  "addListener listenerFn w =
     w\<lparr>projectState := (projectState w)\<lparr>listeners := listeners (projectState w) @ [listenerFn]\<rparr>\<rparr>"

text \<open>
  The loop of \<open>addProject\<close>: each listener in turn is called with a fresh
  \<open>this.projects.slice()\<close>; an exception of a listener ends the loop.
\<close>

fun notify :: "Runtime \<Rightarrow> Listener list \<Rightarrow> World \<Rightarrow> World option" where
  "notify rt [] w = Some w"
| "notify rt (listenerFn # ls) w =
     (let (a, w1) = slice (projects (projectState w)) w;
          w2 = w1\<lparr>calls := calls w1 @ [(listenerFn, a)]\<rparr>
      in case invoke rt listenerFn a w2 of
           None \<Rightarrow> None
         | Some w3 \<Rightarrow> notify rt ls w3)"

text \<open>
  \<open>addProject\<close>; \<open>r\<close> is the number \<open>Math.random()\<close> returns in this call.
\<close>

definition addProject :: "Runtime \<Rightarrow> number \<Rightarrow> jsstring \<Rightarrow> jsstring \<Rightarrow> number \<Rightarrow> World \<Rightarrow> World option" where
  "addProject rt r ttl dsc ppl w =
     (let newProject = \<lparr>id' = Number_toString rt r, title = ttl, description = dsc,
                         people = ppl, status = Active\<rparr>;
          w1 = push (projects (projectState w)) newProject w
      in notify rt (listeners (projectState w1)) w1)"

text \<open>The projects the store holds.\<close>

definition stored :: "World \<Rightarrow> Project list" where
  "stored w = arrays w ! projects (projectState w)"

subsection \<open>Constructing the components\<close>

definition toUpperCase :: "jsstring \<Rightarrow> jsstring" where
  "toUpperCase s = map (\<lambda>c. if 0x61 \<le> c \<and> c \<le> 0x7A then c - 0x20 else c) s"

text \<open>
  \<open>new ProjectList(type)\<close>: the base constructor clones the list template, names the
  section and appends it to the page; then \<open>assignedProjects = []\<close>, \<open>configure\<close>
  (the store gets the listener) and \<open>renderContent\<close> (the list gets its id, the heading
  its text).
\<close>

definition new_ProjectList :: "ListType \<Rightarrow> World \<Rightarrow> World" where
  "new_ProjectList t w =
     (let c = length (projectLists w);
          (a, w1) = new_array w;
          this = (project_list_template t a)\<lparr>section_id := type_str t @ js ''-projects''\<rparr>;
          w2 = w1\<lparr>projectLists := projectLists w1 @ [this]\<rparr>;
          w3 = addListener (ListListener c) w2;
          this = (projectLists w3 ! c)
                   \<lparr>ul_id := list_id t, section_h2 := toUpperCase (type_str t) @ js '' PROJECTS''\<rparr>
      in w3\<lparr>projectLists := (projectLists w3)[c := this]\<rparr>)"

section \<open>The form\<close>

definition titleValidation :: "jsstring \<Rightarrow> Validatable" where
  "titleValidation ttl =
     \<lparr>value' = Some (Str ttl), required = Some True, minLength = None, maxLength = None,
      min' = None, max' = None\<rparr>"

definition descriptionValidation :: "jsstring \<Rightarrow> Validatable" where
  "descriptionValidation dsc =
     \<lparr>value' = Some (Str dsc), required = Some True, minLength = Some (Finite 5),
      maxLength = None, min' = None, max' = None\<rparr>"

definition peopleValidation :: "number \<Rightarrow> Validatable" where
  "peopleValidation ppl =
     \<lparr>value' = Some (Num ppl), required = Some True, minLength = None, maxLength = None,
      min' = Some (Finite 1), max' = Some (Finite 5)\<rparr>"

text \<open>
  \<open>gatherUserInput\<close> returns the tuple, or nothing after an \<open>alert\<close>.
\<close>

definition gatherUserInput :: "Runtime \<Rightarrow> World \<Rightarrow> (jsstring \<times> jsstring \<times> number) option \<times> World" where
  "gatherUserInput rt w =
     (let ttl = titleInputElement (projectInput w);
          dsc = descriptionInputElement (projectInput w);
          ppl = peopleInputElement (projectInput w)
      in if \<not> validate rt (titleValidation ttl) \<or>
            \<not> validate rt (descriptionValidation dsc) \<or>
            \<not> validate rt (peopleValidation (StringToNumber rt ppl))
         then (None, w\<lparr>alerts := alerts w @ [js ''Invalid input, please try again'']\<rparr>)
         else (Some (ttl, dsc, StringToNumber rt ppl), w))"

definition clearInputs :: "World \<Rightarrow> World" where
  "clearInputs w =
     w\<lparr>projectInput := (projectInput w)
       \<lparr>titleInputElement := [], descriptionInputElement := [], peopleInputElement := []\<rparr>\<rparr>"

text \<open>
  \<open>submitHandler\<close>; \<open>r\<close> is what \<open>Math.random()\<close> returns if the store is reached.
  (\<open>event.preventDefault()\<close> acts on the event only.)
\<close>

definition submitHandler :: "Runtime \<Rightarrow> number \<Rightarrow> World \<Rightarrow> World option" where
  "submitHandler rt r w =
     (let (userInput, w1) = gatherUserInput rt w
      in case userInput of
           None \<Rightarrow> Some w1
         | Some (ttl, dsc, ppl) \<Rightarrow>
             (case addProject rt r ttl dsc ppl w1 of
                None \<Rightarrow> None
              | Some w2 \<Rightarrow> Some (clearInputs w2)))"

section \<open>The program\<close>

text \<open>
  The top level of the script: the store (\<open>getInstance\<close> on first access makes the one
  instance, with no listeners and a new empty array), the form, the list of active
  projects and the list of finished ones.
\<close>

definition new_ProjectState :: "World \<Rightarrow> World" where
  "new_ProjectState w =
     (let (a, w1) = new_array w
      in w1\<lparr>projectState := \<lparr>listeners = [], projects = a\<rparr>\<rparr>)"

text \<open>
  \<open>new ProjectInput()\<close>: the base constructor clones the form template into the page,
  and the three fields are the clone's. \<open>configure\<close> binds \<open>submitHandler\<close> to the
  form's \<open>submit\<close> event.
\<close>

definition new_ProjectInput :: "World \<Rightarrow> World" where
  "new_ProjectInput w = w\<lparr>projectInput := project_input_template\<rparr>"

definition main :: World where
  "main =
     (let w0 = \<lparr>arrays = [], projectState = \<lparr>listeners = [], projects = 0\<rparr>,
                projectLists = [], projectInput = project_input_template,
                alerts = [], calls = []\<rparr>;
          w1 = new_ProjectState w0;
          w2 = new_ProjectInput w1;
          w3 = new_ProjectList active w2;
          w4 = new_ProjectList finished w3
      in w4)"

text \<open>
  What can happen to the page afterwards: the user edits a field, submits the form, or
  drags an item (\<open>DragStart\<close> and \<open>DragEnd\<close> name the list and the item in it) over, out
  of or onto a list. An event exists only for an element that exists.
\<close>

datatype Event =
    EditTitle jsstring
  | EditDescription jsstring
  | EditPeople jsstring
  | Submit number
  | DragStart nat nat
  | DragEnd nat nat
  | DragOver nat "jsstring list option"
  | DragLeave nat
  | Drop nat

fun handle :: "Runtime \<Rightarrow> Event \<Rightarrow> World \<Rightarrow> World option" where
  "handle rt (EditTitle s) w = Some (w\<lparr>projectInput := (projectInput w)\<lparr>titleInputElement := s\<rparr>\<rparr>)"
| "handle rt (EditDescription s) w =
     Some (w\<lparr>projectInput := (projectInput w)\<lparr>descriptionInputElement := s\<rparr>\<rparr>)"
| "handle rt (EditPeople s) w = Some (w\<lparr>projectInput := (projectInput w)\<lparr>peopleInputElement := s\<rparr>\<rparr>)"
| "handle rt (Submit r) w = submitHandler rt r w"
| "handle rt (DragStart c i) w =
     (if c < length (projectLists w) \<and> i < length (ul_children (projectLists w ! c))
      then Some w else None)"
| "handle rt (DragEnd c i) w =
     (if c < length (projectLists w) \<and> i < length (ul_children (projectLists w ! c))
      then Some (dragEndHandler (ul_children (projectLists w ! c) ! i) w) else None)"
| "handle rt (DragOver c types) w =
     (if c < length (projectLists w) then Some (dragOverHandler c types w) else None)"
| "handle rt (DragLeave c) w =
     (if c < length (projectLists w) then Some (dragLeaveHandler c w) else None)"
| "handle rt (Drop c) w =
     (if c < length (projectLists w) then Some (dropHandler c w) else None)"

inductive reachable :: "Runtime \<Rightarrow> World \<Rightarrow> bool" for rt :: Runtime where
  reachable_main: "reachable rt main"
| reachable_step: "reachable rt w \<Longrightarrow> handle rt e w = Some w' \<Longrightarrow> reachable rt w'"

text \<open>
  What the operations rely on: the store's array exists, every listener's component
  exists, every list carries the id made from its type, and no two lists have the same
  type.
\<close>

definition lists_ok :: "ProjectList list \<Rightarrow> bool" where
  "lists_ok ls \<longleftrightarrow>
     list_all (\<lambda>l. ul_id l = list_id (type' l)) ls \<and> distinct (map type' ls)"

fun listener_ok :: "nat \<Rightarrow> Listener \<Rightarrow> bool" where
  "listener_ok n (ListListener c) \<longleftrightarrow> c < n"

definition wf :: "World \<Rightarrow> bool" where
  "wf w \<longleftrightarrow>
     projects (projectState w) < length (arrays w) \<and>
     list_all (listener_ok (length (projectLists w))) (listeners (projectState w)) \<and>
     lists_ok (projectLists w)"

text \<open>
  The state after one turn of the loop of \<open>addProject\<close> for the listener of the list
  \<open>c\<close>, in closed form (used in the proofs; \<open>notify_Cons\<close> relates it to the loop):
  two arrays are new, the copy and the filtered copy, the list shows the filtered copy.
\<close>

definition after_call :: "Runtime \<Rightarrow> nat \<Rightarrow> World \<Rightarrow> World" where
  "after_call rt c w =
     (let snapshot = stored w;
          shown = filter (relevant (type' (projectLists w ! c))) snapshot
      in w\<lparr>arrays := arrays w @ [snapshot, shown],
           projectLists := (projectLists w)
             [c := (projectLists w ! c)
                \<lparr>assignedProjects := Suc (length (arrays w)),
                 ul_children := map (ProjectItem_of rt) shown\<rparr>],
           calls := calls w @ [(ListListener c, length (arrays w))]\<rparr>)"

section \<open>A runtime for concrete runs\<close>

text \<open>
  To run the program on concrete inputs the two conversions must be given. This runtime
  prints NaN, the infinities and the integers of magnitude at most \<open>2^53\<close> as JavaScript
  does, and reads an empty or blank string, and a string of decimal digits that denotes
  at most \<open>2^53\<close>, as JavaScript does. On every other argument (fractions, larger
  integers, signs, exponents, other notations) it is a placeholder that differs from
  JavaScript; the runs below use only \<open>0\<close>, \<open>1\<close>, \<open>3\<close>, \<open>5\<close> and \<open>6\<close>.
\<close>

fun show_nat :: "nat \<Rightarrow> jsstring" where
  "show_nat n = (if n < 10 then [of_nat (48 + n)] else show_nat (n div 10) @ [of_nat (48 + n mod 10)])"

declare show_nat.simps [simp del]

fun sample_toString :: "number \<Rightarrow> jsstring" where
  "sample_toString NaN = js ''NaN''"
| "sample_toString PosInfinity = js ''Infinity''"
| "sample_toString NegInfinity = js ''-Infinity''"
| "sample_toString (Finite q) =
     (if q = of_int \<lfloor>q\<rfloor>
      then (if q < 0 then js ''-'' @ show_nat (nat (- \<lfloor>q\<rfloor>)) else show_nat (nat \<lfloor>q\<rfloor>))
      else js ''NaN'')"

definition is_digit :: "16 word \<Rightarrow> bool" where
  "is_digit c \<longleftrightarrow> 0x30 \<le> c \<and> c \<le> 0x39"

definition read_nat :: "jsstring \<Rightarrow> nat" where
  "read_nat s = foldl (\<lambda>n c. 10 * n + (unat c - 48)) 0 s"

definition sample_toNumber :: "jsstring \<Rightarrow> number" where
  "sample_toNumber s =
     (let t = trim s
      in if t = [] then Finite 0
         else if list_all is_digit t then Finite (of_nat (read_nat t))
         else NaN)"

definition sample_runtime :: Runtime where
  "sample_runtime = \<lparr>Number_toString = sample_toString, StringToNumber = sample_toNumber\<rparr>"

section \<open>Properties of the validator\<close>

lemma validate_string:
  "value' v = Some (Str s) \<Longrightarrow>
   validate rt v \<longleftrightarrow>
     (required v = Some True \<longrightarrow> trim s \<noteq> []) \<and>
     (\<forall>m. minLength v = Some m \<longrightarrow> js_gt (length_of s) m) \<and>
     (\<forall>m. maxLength v = Some m \<longrightarrow> js_gt (length_of s) m)"
  by (auto simp: validate_def stringValue_def Let_def)

lemma validate_number:
  "value' v = Some (Num x) \<Longrightarrow>
   validate rt v \<longleftrightarrow>
     (required v = Some True \<longrightarrow> trim (Number_toString rt x) \<noteq> []) \<and>
     (\<forall>m. min' v = Some m \<longrightarrow> js_ge x m) \<and>
     (\<forall>m. max' v = Some m \<longrightarrow> js_le x m)"
  by (auto simp: validate_def stringValue_def Let_def)

lemma js_gt_irrefl: "\<not> js_gt x x"
  by (cases x) (simp_all add: js_gt_def)

lemma js_le_not_gt: "js_le x y \<Longrightarrow> \<not> js_gt x y"
  by (simp add: js_le_def js_gt_def)

lemma js_lt_not_ge: "js_lt x y \<Longrightarrow> \<not> js_ge x y"
  by (simp add: js_lt_def js_ge_def)

lemma js_gt_not_le: "js_gt x y \<Longrightarrow> \<not> js_le x y"
  by (simp add: js_le_def js_gt_def)

lemma js_ge_refl: "x \<noteq> NaN \<Longrightarrow> js_ge x x"
  by (cases x) (simp_all add: js_ge_def)

lemma js_le_refl: "x \<noteq> NaN \<Longrightarrow> js_le x x"
  by (cases x) (simp_all add: js_le_def)

lemma trim_empty_iff: "trim s = [] \<longleftrightarrow> list_all isWhiteSpace s"
proof -
  have "dropWhile isWhiteSpace s = [] \<longleftrightarrow> list_all isWhiteSpace s"
    by (simp add: list_all_iff)
  moreover have "trim s = [] \<longleftrightarrow> dropWhile isWhiteSpace s = []"
  proof
    assume "trim s = []"
    then have a: "dropWhile isWhiteSpace (rev (dropWhile isWhiteSpace s)) = []"
      by (simp add: trim_def)
    show "dropWhile isWhiteSpace s = []"
    proof (cases "dropWhile isWhiteSpace s")
      case Nil then show ?thesis .
    next
      case (Cons c cs)
      then have "\<not> isWhiteSpace c" using hd_dropWhile[of isWhiteSpace s] by auto
      moreover from a have "\<forall>x\<in>set (rev (dropWhile isWhiteSpace s)). isWhiteSpace x"
        by simp
      ultimately show ?thesis using Cons by auto
    qed
  next
    assume b: "dropWhile isWhiteSpace s = []"
    show "trim s = []" unfolding trim_def b by simp
  qed
  ultimately show ?thesis by simp
qed

text \<open>
  Claim C3. For a string value, each configured length bound is compared with a strict
  \<open>>\<close>: a valid string is strictly longer than \<open>minLength\<close> and strictly longer than
  \<open>maxLength\<close>. So a string whose length equals \<open>minLength\<close> is rejected, and a
  string whose length equals \<open>maxLength\<close> is rejected too.
\<close>

theorem validate_length_equal_bound_rejected:
  assumes "value' v = Some (Str s)"
  shows "(\<forall>m. minLength v = Some m \<longrightarrow> validate rt v \<longrightarrow> js_gt (length_of s) m) \<and>
         (\<forall>m. maxLength v = Some m \<longrightarrow> validate rt v \<longrightarrow> js_gt (length_of s) m) \<and>
         (minLength v = Some (length_of s) \<longrightarrow> \<not> validate rt v) \<and>
         (maxLength v = Some (length_of s) \<longrightarrow> \<not> validate rt v)"
  using assms by (auto simp: validate_string js_gt_irrefl)

theorem validate_length_equal_bound_rejected_witness:
  "value' (descriptionValidation (js ''abcde'')) = Some (Str (js ''abcde'')) \<and>
   minLength (descriptionValidation (js ''abcde'')) = Some (length_of (js ''abcde'')) \<and>
   \<not> validate sample_runtime (descriptionValidation (js ''abcde'')) \<and>
   maxLength \<lparr>value' = Some (Str (js ''abcde'')), required = None, minLength = None,
      maxLength = Some (Finite 5), min' = None, max' = None\<rparr> = Some (length_of (js ''abcde'')) \<and>
   \<not> validate sample_runtime \<lparr>value' = Some (Str (js ''abcde'')), required = None, minLength = None,
      maxLength = Some (Finite 5), min' = None, max' = None\<rparr>"
  using validate_length_equal_bound_rejected
          [of "descriptionValidation (js ''abcde'')" "js ''abcde''" sample_runtime]
        validate_length_equal_bound_rejected
          [of "\<lparr>value' = Some (Str (js ''abcde'')), required = None, minLength = None,
      maxLength = Some (Finite 5), min' = None, max' = None\<rparr>" "js ''abcde''" sample_runtime]
  by (simp add: descriptionValidation_def length_of_def js_def)

text \<open>
  Claim C4. For a string value with \<open>maxLength\<close> configured, validity is the validity
  without that bound together with "the length is strictly greater than
  \<open>maxLength\<close>": a string strictly longer than \<open>maxLength\<close> is never rejected by
  this check (it is valid exactly when it is valid without the bound), and every string of
  length at most \<open>maxLength\<close> fails it.
\<close>

theorem validate_maxLength_inverted:
  assumes "value' v = Some (Str s)" and "maxLength v = Some m"
  shows "(validate rt v \<longleftrightarrow> validate rt (v\<lparr>maxLength := None\<rparr>) \<and> js_gt (length_of s) m) \<and>
         (js_gt (length_of s) m \<longrightarrow> validate rt v = validate rt (v\<lparr>maxLength := None\<rparr>)) \<and>
         (js_le (length_of s) m \<longrightarrow> \<not> validate rt v)"
  using assms by (auto simp: validate_string dest: js_le_not_gt)

theorem validate_maxLength_inverted_witness:
  "js_gt (length_of (js ''abcdef'')) (Finite 3) \<and>
   validate sample_runtime \<lparr>value' = Some (Str (js ''abcdef'')), required = None, minLength = None,
      maxLength = Some (Finite 3), min' = None, max' = None\<rparr> \<and>
   js_le (length_of (js ''ab'')) (Finite 3) \<and>
   \<not> validate sample_runtime \<lparr>value' = Some (Str (js ''ab'')), required = None, minLength = None,
      maxLength = Some (Finite 3), min' = None, max' = None\<rparr>"
proof -
  let ?long = "\<lparr>value' = Some (Str (js ''abcdef'')), required = None, minLength = None,
      maxLength = Some (Finite 3), min' = None, max' = None\<rparr>"
  let ?short = "\<lparr>value' = Some (Str (js ''ab'')), required = None, minLength = None,
      maxLength = Some (Finite 3), min' = None, max' = None\<rparr>"
  have gt: "js_gt (length_of (js ''abcdef'')) (Finite 3)"
    by (simp add: js_gt_def length_of_def js_def)
  have le: "js_le (length_of (js ''ab'')) (Finite 3)"
    by (simp add: js_le_def length_of_def js_def)
  have plain: "validate sample_runtime (?long\<lparr>maxLength := None\<rparr>)"
    by (simp add: validate_def)
  have l: "value' ?long = Some (Str (js ''abcdef''))" "maxLength ?long = Some (Finite 3)"
    by simp_all
  have s: "value' ?short = Some (Str (js ''ab''))" "maxLength ?short = Some (Finite 3)"
    by simp_all
  from validate_maxLength_inverted[OF l, of sample_runtime] gt plain
  have "validate sample_runtime ?long" by blast
  moreover from validate_maxLength_inverted[OF s, of sample_runtime] le
  have "\<not> validate sample_runtime ?short" by blast
  ultimately show ?thesis using gt le by simp
qed

text \<open>
  Claim C5. For a numeric value the bounds \<open>min\<close> and \<open>max\<close> are inclusive: a value
  strictly below \<open>min\<close> or strictly above \<open>max\<close> is invalid, and a value equal to
  \<open>min\<close> (and within \<open>max\<close>, if configured) or equal to \<open>max\<close> (and within
  \<open>min\<close>) is valid. The length bounds play no part for a number; \<open>required\<close>, when
  configured, asks that the printed number is not blank.
\<close>

theorem validate_numeric_bounds_inclusive:
  assumes "value' v = Some (Num x)"
  shows "(\<forall>lo. min' v = Some lo \<longrightarrow> js_lt x lo \<longrightarrow> \<not> validate rt v) \<and>
         (\<forall>hi. max' v = Some hi \<longrightarrow> js_gt x hi \<longrightarrow> \<not> validate rt v) \<and>
         ((required v = Some True \<longrightarrow> trim (Number_toString rt x) \<noteq> []) \<longrightarrow>
            x \<noteq> NaN \<longrightarrow> min' v = Some x \<longrightarrow>
            (max' v = None \<or> (\<exists>hi. max' v = Some hi \<and> js_le x hi)) \<longrightarrow> validate rt v) \<and>
         ((required v = Some True \<longrightarrow> trim (Number_toString rt x) \<noteq> []) \<longrightarrow>
            x \<noteq> NaN \<longrightarrow> max' v = Some x \<longrightarrow>
            (min' v = None \<or> (\<exists>lo. min' v = Some lo \<and> js_ge x lo)) \<longrightarrow> validate rt v)"
  using assms
  by (auto simp: validate_number js_ge_refl js_le_refl dest: js_lt_not_ge js_gt_not_le)

lemma show_nat_digit: "n < 10 \<Longrightarrow> show_nat n = [of_nat (48 + n)]"
  by (simp add: show_nat.simps)

theorem validate_numeric_bounds_inclusive_witness:
  "js_lt (Finite 0) (Finite 1) \<and> \<not> validate sample_runtime (peopleValidation (Finite 0)) \<and>
   js_gt (Finite 6) (Finite 5) \<and> \<not> validate sample_runtime (peopleValidation (Finite 6)) \<and>
   validate sample_runtime (peopleValidation (Finite 1)) \<and>
   validate sample_runtime (peopleValidation (Finite 5))"
proof -
  have lt: "js_lt (Finite 0) (Finite 1)" by (simp add: js_lt_def)
  have gt: "js_gt (Finite 6) (Finite 5)" by (simp add: js_gt_def)
  have le: "js_le (Finite 1) (Finite 5)" by (simp add: js_le_def)
  have ge: "js_ge (Finite 5) (Finite 1)" by (simp add: js_ge_def)
  have p1: "trim (Number_toString sample_runtime (Finite 1)) \<noteq> []"
    by (simp add: sample_runtime_def show_nat_digit trim_def isWhiteSpace_def)
  have p5: "trim (Number_toString sample_runtime (Finite 5)) \<noteq> []"
    by (simp add: sample_runtime_def show_nat_digit trim_def isWhiteSpace_def)
  from validate_numeric_bounds_inclusive[of "peopleValidation (Finite 0)" "Finite 0" sample_runtime] lt
  have a: "\<not> validate sample_runtime (peopleValidation (Finite 0))"
    by (simp add: peopleValidation_def)
  from validate_numeric_bounds_inclusive[of "peopleValidation (Finite 6)" "Finite 6" sample_runtime] gt
  have b: "\<not> validate sample_runtime (peopleValidation (Finite 6))"
    by (simp add: peopleValidation_def)
  from validate_numeric_bounds_inclusive[of "peopleValidation (Finite 1)" "Finite 1" sample_runtime] le p1
  have c: "validate sample_runtime (peopleValidation (Finite 1))"
    by (simp add: peopleValidation_def)
  from validate_numeric_bounds_inclusive[of "peopleValidation (Finite 5)" "Finite 5" sample_runtime] ge p5
  have d: "validate sample_runtime (peopleValidation (Finite 5))"
    by (simp add: peopleValidation_def)
  from a b c d lt gt show ?thesis by simp
qed

text \<open>
  Claim C6, amended. With \<open>required\<close> configured, an empty string is invalid, and so is
  every string that consists of white space only; a string with at least one character
  that is not white space is valid when no length bound is configured.
\<close>

theorem validate_required_string:
  assumes "value' v = Some (Str s)" and "required v = Some True"
  shows "(s = [] \<longrightarrow> \<not> validate rt v) \<and>
         (list_all isWhiteSpace s \<longrightarrow> \<not> validate rt v) \<and>
         (\<not> list_all isWhiteSpace s \<longrightarrow> minLength v = None \<longrightarrow> maxLength v = None \<longrightarrow> validate rt v)"
  using assms by (auto simp: validate_string trim_empty_iff)

theorem validate_required_string_witness:
  "\<not> validate sample_runtime (titleValidation []) \<and>
   list_all isWhiteSpace (js ''  '') \<and> \<not> validate sample_runtime (titleValidation (js ''  '')) \<and>
   \<not> list_all isWhiteSpace (js '' a '') \<and> validate sample_runtime (titleValidation (js '' a ''))"
proof -
  have ws: "list_all isWhiteSpace (js ''  '')" by (simp add: js_def isWhiteSpace_def)
  have nws: "\<not> list_all isWhiteSpace (js '' a '')" by (simp add: js_def isWhiteSpace_def)
  from validate_required_string[of "titleValidation []" "[]" sample_runtime]
  have a: "\<not> validate sample_runtime (titleValidation [])"
    by (simp add: titleValidation_def)
  from validate_required_string[of "titleValidation (js ''  '')" "js ''  ''" sample_runtime] ws
  have b: "\<not> validate sample_runtime (titleValidation (js ''  ''))"
    by (simp add: titleValidation_def)
  from validate_required_string[of "titleValidation (js '' a '')" "js '' a ''" sample_runtime] nws
  have c: "validate sample_runtime (titleValidation (js '' a ''))"
    by (simp add: titleValidation_def)
  from a b c ws nws show ?thesis by simp
qed

text \<open>
  Claim C6 as stated fails: the string of one space is not empty, and with \<open>required\<close>
  and no other constraint it is invalid, because the test is made on the trimmed string.
\<close>

theorem required_blank_string_counterexample:
  "js '' '' \<noteq> [] \<and>
   \<not> validate sample_runtime
       \<lparr>value' = Some (Str (js '' '')), required = Some True, minLength = None,
        maxLength = None, min' = None, max' = None\<rparr>"
  by (simp add: validate_def stringValue_def trim_def isWhiteSpace_def js_def)


section \<open>Rendering and notification\<close>

lemma list_id_inj: "list_id t = list_id t' \<longleftrightarrow> t = t'"
  by (cases t; cases t') (simp_all add: list_id_def js_def)

lemma find_ul_own:
  "lists_ok ls \<Longrightarrow> c < length ls \<Longrightarrow> find_ul (list_id (type' (ls ! c))) ls = Some c"
proof (induction ls arbitrary: c)
  case Nil
  then show ?case by simp
next
  case (Cons l ls)
  show ?case
  proof (cases c)
    case 0
    with Cons.prems show ?thesis by (simp add: lists_ok_def)
  next
    case (Suc k)
    with Cons.prems have k: "k < length ls" and ok: "lists_ok ls"
      and ne: "type' l \<noteq> type' (ls ! k)"
      by (auto simp: lists_ok_def)
    from Cons.prems have "ul_id l = list_id (type' l)" by (simp add: lists_ok_def)
    with ne have "ul_id l \<noteq> list_id (type' (ls ! k))" by (simp add: list_id_inj)
    with Cons.IH[OF ok k] Suc show ?thesis by simp
  qed
qed

lemma map_update_same:
  "f x = f (ls ! c) \<Longrightarrow> map f (ls[c := x]) = map f ls"
  by (induction ls arbitrary: c) (auto split: nat.splits)

lemma lists_ok_alt:
  "lists_ok ls \<longleftrightarrow>
     map ul_id ls = map (\<lambda>l. list_id (type' l)) ls \<and> distinct (map type' ls)"
  by (simp add: lists_ok_def list_all_iff)

lemma lists_ok_cong:
  "map type' ls' = map type' ls \<Longrightarrow> map ul_id ls' = map ul_id ls \<Longrightarrow> lists_ok ls' = lists_ok ls"
proof -
  assume t: "map type' ls' = map type' ls" and u: "map ul_id ls' = map ul_id ls"
  have "map (\<lambda>l. list_id (type' l)) ls' = map list_id (map type' ls')" by simp
  also have "\<dots> = map list_id (map type' ls)" by (simp only: t)
  also have "\<dots> = map (\<lambda>l. list_id (type' l)) ls" by simp
  finally show ?thesis by (simp add: lists_ok_alt t u)
qed


lemma lists_ok_update:
  "lists_ok ls \<Longrightarrow> type' x = type' (ls ! c) \<Longrightarrow> ul_id x = ul_id (ls ! c) \<Longrightarrow>
   lists_ok (ls[c := x])"
  using lists_ok_cong[of "ls[c := x]" ls] by (simp add: map_update_same)

lemma lists_ok_ul_id:
  "lists_ok ls \<Longrightarrow> c < length ls \<Longrightarrow> ul_id (ls ! c) = list_id (type' (ls ! c))"
  by (simp add: lists_ok_def list_all_length)

lemma new_ProjectItem_own:
  assumes "lists_ok (projectLists w)" and "c < length (projectLists w)"
  shows "new_ProjectItem rt (ul_id (projectLists w ! c)) prj w =
         Some (w\<lparr>projectLists := (projectLists w)
           [c := (projectLists w ! c)
              \<lparr>ul_children := ul_children (projectLists w ! c) @ [ProjectItem_of rt prj]\<rparr>]\<rparr>)"
  using assms
  by (simp add: new_ProjectItem_def getUlById_def lists_ok_ul_id find_ul_own Let_def)

lemma renderItems_own:
  assumes "lists_ok (projectLists w)" and "c < length (projectLists w)"
  shows "renderItems rt c ps w =
         Some (w\<lparr>projectLists := (projectLists w)
           [c := (projectLists w ! c)
              \<lparr>ul_children := ul_children (projectLists w ! c) @ map (ProjectItem_of rt) ps\<rparr>]\<rparr>)"
  using assms
proof (induction ps arbitrary: w)
  case Nil
  then show ?case by simp
next
  case (Cons prj ps)
  let ?ls = "projectLists w"
  let ?w' = "w\<lparr>projectLists := ?ls
           [c := (?ls ! c)\<lparr>ul_children := ul_children (?ls ! c) @ [ProjectItem_of rt prj]\<rparr>]\<rparr>"
  have ok': "lists_ok (projectLists ?w')"
    using Cons.prems(1) by (simp add: lists_ok_update)
  have len': "c < length (projectLists ?w')"
    using Cons.prems(2) by simp
  have "renderItems rt c (prj # ps) w = renderItems rt c ps ?w'"
    using new_ProjectItem_own[OF Cons.prems, of rt prj] by simp
  also have "\<dots> = Some (?w'\<lparr>projectLists := (projectLists ?w')
           [c := (projectLists ?w' ! c)
              \<lparr>ul_children := ul_children (projectLists ?w' ! c) @ map (ProjectItem_of rt) ps\<rparr>]\<rparr>)"
    by (rule Cons.IH[OF ok' len'])
  also have "\<dots> = Some (w\<lparr>projectLists := ?ls
           [c := (?ls ! c)
              \<lparr>ul_children := ul_children (?ls ! c) @ map (ProjectItem_of rt) (prj # ps)\<rparr>]\<rparr>)"
    using Cons.prems(2) by simp
  finally show ?case .
qed

lemma renderProjects_own:
  assumes "lists_ok (projectLists w)" and "c < length (projectLists w)"
  shows "renderProjects rt c w =
         Some (w\<lparr>projectLists := (projectLists w)
           [c := (projectLists w ! c)
              \<lparr>ul_children :=
                 map (ProjectItem_of rt) (arrays w ! assignedProjects (projectLists w ! c))\<rparr>]\<rparr>)"
proof -
  let ?ls = "projectLists w"
  let ?w1 = "w\<lparr>projectLists := ?ls[c := (?ls ! c)\<lparr>ul_children := []\<rparr>]\<rparr>"
  have ok1: "lists_ok (projectLists ?w1)"
    using assms(1) by (simp add: lists_ok_update)
  have len1: "c < length (projectLists ?w1)"
    using assms(2) by simp
  have "renderProjects rt c w =
        renderItems rt c (arrays ?w1 ! assignedProjects (projectLists ?w1 ! c)) ?w1"
    using assms by (simp add: renderProjects_def getUlById_def find_ul_own Let_def)
  also have "\<dots> = Some (?w1\<lparr>projectLists := (projectLists ?w1)
           [c := (projectLists ?w1 ! c)
              \<lparr>ul_children := ul_children (projectLists ?w1 ! c) @
                 map (ProjectItem_of rt) (arrays ?w1 ! assignedProjects (projectLists ?w1 ! c))\<rparr>]\<rparr>)"
    by (rule renderItems_own[OF ok1 len1])
  also have "\<dots> = Some (w\<lparr>projectLists := ?ls
           [c := (?ls ! c)
              \<lparr>ul_children := map (ProjectItem_of rt) (arrays w ! assignedProjects (?ls ! c))\<rparr>]\<rparr>)"
    using assms(2) by simp
  finally show ?thesis .
qed

lemma notify_Cons:
  assumes "lists_ok (projectLists w)" and "c < length (projectLists w)"
  shows "notify rt (ListListener c # ls) w = notify rt ls (after_call rt c w)"
proof -
  let ?p = "projects (projectState w)"
  let ?ls = "projectLists w"
  let ?shown = "filter (relevant (type' (?ls ! c))) (arrays w ! ?p)"
  let ?w2 = "w\<lparr>arrays := arrays w @ [arrays w ! ?p],
               calls := calls w @ [(ListListener c, length (arrays w))]\<rparr>"
  let ?w3 = "?w2\<lparr>arrays := arrays ?w2 @ [?shown],
               projectLists := ?ls[c := (?ls ! c)\<lparr>assignedProjects := length (arrays ?w2)\<rparr>]\<rparr>"
  have ok3: "lists_ok (projectLists ?w3)"
    using assms(1) by (simp add: lists_ok_update)
  have len3: "c < length (projectLists ?w3)"
    using assms(2) by simp
  have inv: "invoke rt (ListListener c) (length (arrays w)) ?w2 = renderProjects rt c ?w3"
    by (simp add: filter_array_def Let_def)
  have "renderProjects rt c ?w3 = Some (after_call rt c w)"
    unfolding renderProjects_own[OF ok3 len3]
    using assms(2) by (simp add: after_call_def stored_def Let_def nth_append)
  with inv show ?thesis
    by (simp add: slice_def Let_def)
qed


lemma after_call_simps:
  "projectState (after_call rt c w) = projectState w"
  "projectInput (after_call rt c w) = projectInput w"
  "alerts (after_call rt c w) = alerts w"
  "length (projectLists (after_call rt c w)) = length (projectLists w)"
  "arrays (after_call rt c w) =
     arrays w @ [stored w, filter (relevant (type' (projectLists w ! c))) (stored w)]"
  "calls (after_call rt c w) = calls w @ [(ListListener c, length (arrays w))]"
  by (simp_all add: after_call_def Let_def)

lemma after_call_lists:
  "projectLists (after_call rt c w) =
     (projectLists w)
       [c := (projectLists w ! c)
          \<lparr>assignedProjects := Suc (length (arrays w)),
           ul_children := map (ProjectItem_of rt)
             (filter (relevant (type' (projectLists w ! c))) (stored w))\<rparr>]"
  by (simp add: after_call_def Let_def)

lemma after_call_types:
  "map type' (projectLists (after_call rt c w)) = map type' (projectLists w)"
  by (simp add: after_call_lists map_update_same)

lemma after_call_ok:
  "lists_ok (projectLists w) \<Longrightarrow> lists_ok (projectLists (after_call rt c w))"
  by (simp add: after_call_lists lists_ok_update)

lemma after_call_stored:
  "projects (projectState w) < length (arrays w) \<Longrightarrow> stored (after_call rt c w) = stored w"
  by (simp add: stored_def after_call_simps nth_append)

text \<open>The loop returns, and leaves the store, the form and the alerts alone.\<close>

lemma notify_returns:
  assumes "lists_ok (projectLists w)"
    and "list_all (listener_ok (length (projectLists w))) ls"
  shows "\<exists>w'. notify rt ls w = Some w'"
  using assms
proof (induction ls arbitrary: w)
  case Nil
  then show ?case by simp
next
  case (Cons l ls)
  obtain c where l: "l = ListListener c" by (cases l)
  with Cons.prems have c: "c < length (projectLists w)" by simp
  have "\<exists>w'. notify rt ls (after_call rt c w) = Some w'"
    using Cons.prems by (intro Cons.IH) (simp_all add: after_call_ok after_call_simps)
  then show ?case
    using notify_Cons[OF Cons.prems(1) c] l by simp
qed

lemma notify_frame:
  assumes "notify rt ls w = Some w'"
    and "lists_ok (projectLists w)"
    and "list_all (listener_ok (length (projectLists w))) ls"
  shows "projectState w' = projectState w \<and> projectInput w' = projectInput w \<and>
         alerts w' = alerts w \<and> lists_ok (projectLists w') \<and>
         length (projectLists w') = length (projectLists w) \<and>
         map type' (projectLists w') = map type' (projectLists w) \<and>
         (\<exists>ext. arrays w' = arrays w @ ext)"
  using assms
proof (induction ls arbitrary: w)
  case Nil
  then show ?case by simp
next
  case (Cons l ls)
  obtain c where l: "l = ListListener c" by (cases l)
  with Cons.prems have c: "c < length (projectLists w)" by simp
  let ?w1 = "after_call rt c w"
  have n: "notify rt ls ?w1 = Some w'"
    using notify_Cons[OF Cons.prems(2) c, of rt ls] Cons.prems(1) l by simp
  have ok1: "lists_ok (projectLists ?w1)"
    using Cons.prems(2) by (rule after_call_ok)
  have ls1: "list_all (listener_ok (length (projectLists ?w1))) ls"
    using Cons.prems(3) by (simp add: after_call_simps)
  from Cons.IH[OF n ok1 ls1] show ?case
    by (auto simp: after_call_simps after_call_types)
qed


text \<open>One turn of the loop, as the loop makes it: the slice, then the call.\<close>

lemma invoke_sliced:
  assumes "lists_ok (projectLists w)" and "c < length (projectLists w)"
  shows "fst (slice (projects (projectState w)) w) = length (arrays w)"
    and "arrays (snd (slice (projects (projectState w)) w)) ! length (arrays w) = stored w"
    and "invoke rt (ListListener c) (length (arrays w))
           ((snd (slice (projects (projectState w)) w))
              \<lparr>calls := calls w @ [(ListListener c, length (arrays w))]\<rparr>) =
         Some (after_call rt c w)"
proof -
  show "fst (slice (projects (projectState w)) w) = length (arrays w)"
    by (simp add: slice_def)
  show "arrays (snd (slice (projects (projectState w)) w)) ! length (arrays w) = stored w"
    by (simp add: slice_def stored_def)
  from notify_Cons[OF assms, of rt "[]"]
  show "invoke rt (ListListener c) (length (arrays w))
           ((snd (slice (projects (projectState w)) w))
              \<lparr>calls := calls w @ [(ListListener c, length (arrays w))]\<rparr>) =
         Some (after_call rt c w)"
    by (simp add: slice_def Let_def split: option.splits)
qed

text \<open>
  The loop as a run: the states \<open>ws\<close> between the calls and the arrays \<open>snaps\<close> handed
  over. Each listener in turn is called with the slice just taken, which is new and holds
  the store's projects, and its call leads to the next state.
\<close>

lemma notify_run:
  assumes "notify rt ls w = Some w'"
    and "lists_ok (projectLists w)"
    and "list_all (listener_ok (length (projectLists w))) ls"
    and "projects (projectState w) < length (arrays w)"
  shows "\<exists>snaps ws. length snaps = length ls \<and> length ws = Suc (length ls) \<and>
           ws ! 0 = w \<and> ws ! length ls = w' \<and>
           (\<forall>k<length ls.
              snaps ! k = fst (slice (projects (projectState (ws ! k))) (ws ! k)) \<and>
              arrays (snd (slice (projects (projectState (ws ! k))) (ws ! k))) ! (snaps ! k) =
                stored w \<and>
              invoke rt (ls ! k) (snaps ! k)
                ((snd (slice (projects (projectState (ws ! k))) (ws ! k)))
                   \<lparr>calls := calls (ws ! k) @ [(ls ! k, snaps ! k)]\<rparr>) = Some (ws ! Suc k)) \<and>
           calls w' = calls w @ zip ls snaps \<and>
           distinct snaps \<and>
           list_all (\<lambda>a. length (arrays w) \<le> a \<and> a < length (arrays w') \<and>
                          arrays w' ! a = stored w) snaps"
  using assms
proof (induction ls arbitrary: w)
  case Nil
  then show ?case by (intro exI[of _ "[]"] exI[of _ "[w]"]) simp
next
  case (Cons l ls)
  obtain c where l: "l = ListListener c" by (cases l)
  with Cons.prems have c: "c < length (projectLists w)" by simp
  let ?w1 = "after_call rt c w"
  let ?n = "length (arrays w)"
  have n: "notify rt ls ?w1 = Some w'"
    using notify_Cons[OF Cons.prems(2) c, of rt ls] Cons.prems(1) l by simp
  have ok1: "lists_ok (projectLists ?w1)"
    using Cons.prems(2) by (rule after_call_ok)
  have ls1: "list_all (listener_ok (length (projectLists ?w1))) ls"
    using Cons.prems(3) by (simp add: after_call_simps)
  have p1: "projects (projectState ?w1) < length (arrays ?w1)"
    using Cons.prems(4) by (simp add: after_call_simps)
  have st1: "stored ?w1 = stored w"
    using Cons.prems(4) by (rule after_call_stored)
  from Cons.IH[OF n ok1 ls1 p1] obtain snaps ws where
    len: "length snaps = length ls" and
    lws: "length ws = Suc (length ls)" and
    w0: "ws ! 0 = ?w1" and
    wn: "ws ! length ls = w'" and
    run: "\<And>k. k < length ls \<Longrightarrow>
              snaps ! k = fst (slice (projects (projectState (ws ! k))) (ws ! k)) \<and>
              arrays (snd (slice (projects (projectState (ws ! k))) (ws ! k))) ! (snaps ! k) =
                stored w \<and>
              invoke rt (ls ! k) (snaps ! k)
                ((snd (slice (projects (projectState (ws ! k))) (ws ! k)))
                   \<lparr>calls := calls (ws ! k) @ [(ls ! k, snaps ! k)]\<rparr>) = Some (ws ! Suc k)" and
    cs: "calls w' = calls ?w1 @ zip ls snaps" and
    d: "distinct snaps" and
    al: "list_all (\<lambda>a. length (arrays ?w1) \<le> a \<and> a < length (arrays w') \<and>
                        arrays w' ! a = stored ?w1) snaps"
    unfolding st1 by blast
  from notify_frame[OF n ok1 ls1] obtain ext where ext: "arrays w' = arrays ?w1 @ ext"
    by blast
  have hd_lt: "?n < length (arrays w')"
    by (simp add: ext after_call_simps)
  have hd_eq: "arrays w' ! ?n = stored w"
    by (simp add: ext after_call_simps nth_append)
  have fresh: "?n \<notin> set snaps"
    using al by (auto simp: list_all_iff after_call_simps)
  have al': "list_all (\<lambda>a. ?n \<le> a \<and> a < length (arrays w') \<and> arrays w' ! a = stored w) snaps"
    using al by (auto simp: list_all_iff after_call_simps st1)
  let ?snaps = "?n # snaps" and ?ws = "w # ws"
  have run': "?snaps ! k = fst (slice (projects (projectState (?ws ! k))) (?ws ! k)) \<and>
              arrays (snd (slice (projects (projectState (?ws ! k))) (?ws ! k))) ! (?snaps ! k) =
                stored w \<and>
              invoke rt ((l # ls) ! k) (?snaps ! k)
                ((snd (slice (projects (projectState (?ws ! k))) (?ws ! k)))
                   \<lparr>calls := calls (?ws ! k) @ [((l # ls) ! k, ?snaps ! k)]\<rparr>) =
                Some (?ws ! Suc k)"
    if "k < length (l # ls)" for k
  proof (cases k)
    case 0
    then show ?thesis
      using invoke_sliced[OF Cons.prems(2) c] l w0 by simp
  next
    case (Suc j)
    with that have j: "j < length ls" by simp
    show ?thesis unfolding Suc nth_Cons_Suc by (rule run[OF j])
  qed
  have "length ?snaps = length (l # ls)" using len by simp
  moreover have "length ?ws = Suc (length (l # ls))" using lws by simp
  moreover have "?ws ! 0 = w" by simp
  moreover have "?ws ! length (l # ls) = w'" using wn by simp
  moreover have "calls w' = calls w @ zip (l # ls) ?snaps"
    using cs l by (simp add: after_call_simps)
  moreover have "distinct ?snaps" using d fresh by simp
  moreover have "list_all (\<lambda>a. ?n \<le> a \<and> a < length (arrays w') \<and> arrays w' ! a = stored w)
                   ?snaps"
    using al' hd_lt hd_eq by simp
  ultimately show ?case using run' by blast
qed

text \<open>
  After the loop a list whose listener was called keeps, as its assigned projects, an
  array made during the loop that holds its part of the store.
\<close>

lemma notify_assigned:
  assumes "notify rt ls w = Some w'"
    and "lists_ok (projectLists w)"
    and "list_all (listener_ok (length (projectLists w))) ls"
    and "projects (projectState w) < length (arrays w)"
    and "c < length (projectLists w)"
  shows "if ListListener c \<in> set ls
         then length (arrays w) \<le> assignedProjects (projectLists w' ! c) \<and>
              assignedProjects (projectLists w' ! c) < length (arrays w') \<and>
              arrays w' ! assignedProjects (projectLists w' ! c) =
                filter (relevant (type' (projectLists w ! c))) (stored w)
         else assignedProjects (projectLists w' ! c) = assignedProjects (projectLists w ! c)"
  using assms
proof (induction ls arbitrary: w)
  case Nil
  then show ?case by simp
next
  case (Cons l ls)
  obtain c0 where l: "l = ListListener c0" by (cases l)
  with Cons.prems have c0: "c0 < length (projectLists w)" by simp
  let ?w1 = "after_call rt c0 w"
  let ?a = "assignedProjects (projectLists w' ! c)"
  let ?shown = "filter (relevant (type' (projectLists w ! c))) (stored w)"
  have n: "notify rt ls ?w1 = Some w'"
    using notify_Cons[OF Cons.prems(2) c0, of rt ls] Cons.prems(1) l by simp
  have ok1: "lists_ok (projectLists ?w1)"
    using Cons.prems(2) by (rule after_call_ok)
  have ls1: "list_all (listener_ok (length (projectLists ?w1))) ls"
    using Cons.prems(3) by (simp add: after_call_simps)
  have p1: "projects (projectState ?w1) < length (arrays ?w1)"
    using Cons.prems(4) by (simp add: after_call_simps)
  have c1: "c < length (projectLists ?w1)"
    using Cons.prems(5) by (simp add: after_call_simps)
  have st1: "stored ?w1 = stored w"
    using Cons.prems(4) by (rule after_call_stored)
  have ty1: "type' (projectLists ?w1 ! c) = type' (projectLists w ! c)"
    using Cons.prems(5) c0 by (simp add: after_call_lists nth_list_update)
  have as1: "assignedProjects (projectLists ?w1 ! c) =
               (if c = c0 then Suc (length (arrays w)) else assignedProjects (projectLists w ! c))"
    using Cons.prems(5) c0 by (simp add: after_call_lists nth_list_update)
  from notify_frame[OF n ok1 ls1] obtain ext where ext: "arrays w' = arrays ?w1 @ ext"
    by blast
  note ih = Cons.IH[OF n ok1 ls1 p1 c1]
  show ?case
  proof (cases "ListListener c \<in> set ls")
    case True
    with ih have "length (arrays ?w1) \<le> ?a \<and> ?a < length (arrays w') \<and>
                  arrays w' ! ?a = ?shown"
      by (simp add: st1 ty1)
    then show ?thesis using True by (simp add: after_call_simps)
  next
    case False
    with ih have a: "?a = assignedProjects (projectLists ?w1 ! c)" by simp
    show ?thesis
    proof (cases "c = c0")
      case True
      with a as1 have b: "?a = Suc (length (arrays w))" by simp
      have "arrays w' ! Suc (length (arrays w)) = filter (relevant (type' (projectLists w ! c0))) (stored w)"
        by (simp add: ext after_call_simps nth_append)
      then show ?thesis using True b l by (simp add: ext after_call_simps)
    next
      case c: False
      with a as1 False l show ?thesis by simp
    qed
  qed
qed


text \<open>After the loop a list whose listener was called shows its part of the store.\<close>

lemma notify_render:
  assumes "notify rt ls w = Some w'"
    and "lists_ok (projectLists w)"
    and "list_all (listener_ok (length (projectLists w))) ls"
    and "projects (projectState w) < length (arrays w)"
    and "c < length (projectLists w)"
  shows "ul_children (projectLists w' ! c) =
           (if ListListener c \<in> set ls
            then map (ProjectItem_of rt) (filter (relevant (type' (projectLists w ! c))) (stored w))
            else ul_children (projectLists w ! c))"
  using assms
proof (induction ls arbitrary: w)
  case Nil
  then show ?case by simp
next
  case (Cons l ls)
  obtain c0 where l: "l = ListListener c0" by (cases l)
  with Cons.prems have c0: "c0 < length (projectLists w)" by simp
  let ?w1 = "after_call rt c0 w"
  have n: "notify rt ls ?w1 = Some w'"
    using notify_Cons[OF Cons.prems(2) c0, of rt ls] Cons.prems(1) l by simp
  have ok1: "lists_ok (projectLists ?w1)"
    using Cons.prems(2) by (rule after_call_ok)
  have ls1: "list_all (listener_ok (length (projectLists ?w1))) ls"
    using Cons.prems(3) by (simp add: after_call_simps)
  have p1: "projects (projectState ?w1) < length (arrays ?w1)"
    using Cons.prems(4) by (simp add: after_call_simps)
  have c1: "c < length (projectLists ?w1)"
    using Cons.prems(5) by (simp add: after_call_simps)
  have st1: "stored ?w1 = stored w"
    using Cons.prems(4) by (rule after_call_stored)
  have ty1: "type' (projectLists ?w1 ! c) = type' (projectLists w ! c)"
    using Cons.prems(5) c0 by (simp add: after_call_lists nth_list_update)
  have ch1: "ul_children (projectLists ?w1 ! c) =
               (if c = c0
                then map (ProjectItem_of rt) (filter (relevant (type' (projectLists w ! c))) (stored w))
                else ul_children (projectLists w ! c))"
    using Cons.prems(5) c0 by (simp add: after_call_lists nth_list_update)
  from Cons.IH[OF n ok1 ls1 p1 c1]
  have ih: "ul_children (projectLists w' ! c) =
              (if ListListener c \<in> set ls
               then map (ProjectItem_of rt) (filter (relevant (type' (projectLists w ! c))) (stored w))
               else ul_children (projectLists ?w1 ! c))"
    by (simp only: st1 ty1)
  show ?case
    using ih ch1 l by auto
qed

text \<open>\<open>push\<close> on the store's array.\<close>

lemma push_simps:
  "projectState (push a x w) = projectState w"
  "projectLists (push a x w) = projectLists w"
  "projectInput (push a x w) = projectInput w"
  "alerts (push a x w) = alerts w"
  "calls (push a x w) = calls w"
  "length (arrays (push a x w)) = length (arrays w)"
  by (simp_all add: push_def)

lemma push_stored:
  "projects (projectState w) < length (arrays w) \<Longrightarrow>
   stored (push (projects (projectState w)) x w) = stored w @ [x]"
  by (simp add: stored_def push_def)

lemma push_other:
  "a \<noteq> b \<Longrightarrow> arrays (push a x w) ! b = arrays w ! b"
  by (simp add: push_def)


section \<open>The store\<close>

lemma addProject_notify:
  "addProject rt r ttl dsc ppl w =
     notify rt (listeners (projectState w))
       (push (projects (projectState w))
          \<lparr>id' = Number_toString rt r, title = ttl, description = dsc, people = ppl,
           status = Active\<rparr> w)"
  by (simp add: addProject_def Let_def push_simps)

lemma wf_push:
  assumes "wf w"
  shows "lists_ok (projectLists (push a x w))"
    and "list_all (listener_ok (length (projectLists (push a x w)))) (listeners (projectState w))"
    and "projects (projectState (push a x w)) < length (arrays (push a x w))"
  using assms by (simp_all add: wf_def push_simps)

lemma addProject_returns:
  assumes "wf w"
  shows "\<exists>w'. addProject rt r ttl dsc ppl w = Some w'"
  unfolding addProject_notify
  by (rule notify_returns) (rule wf_push[OF assms])+

lemma addProject_frame:
  assumes "addProject rt r ttl dsc ppl w = Some w'" and "wf w"
  shows "projectState w' = projectState w"
    and "projectInput w' = projectInput w"
    and "alerts w' = alerts w"
    and "length (projectLists w') = length (projectLists w)"
    and "map type' (projectLists w') = map type' (projectLists w)"
    and "wf w'"
    and "stored w' = stored w @
           [\<lparr>id' = Number_toString rt r, title = ttl, description = dsc, people = ppl,
             status = Active\<rparr>]"
    and "length (arrays w) \<le> length (arrays w')"
    and "\<And>a. a < length (arrays w) \<Longrightarrow> a \<noteq> projects (projectState w) \<Longrightarrow>
           arrays w' ! a = arrays w ! a"
proof -
  let ?p = "projects (projectState w)"
  let ?new = "\<lparr>id' = Number_toString rt r, title = ttl, description = dsc, people = ppl,
               status = Active\<rparr>"
  let ?w1 = "push ?p ?new w"
  have n: "notify rt (listeners (projectState w)) ?w1 = Some w'"
    using assms(1) by (simp add: addProject_notify)
  note fr = notify_frame[OF n wf_push(1)[OF assms(2)] wf_push(2)[OF assms(2)]]
  from fr obtain ext where ext: "arrays w' = arrays ?w1 @ ext" by blast
  have p: "?p < length (arrays w)" using assms(2) by (simp add: wf_def)
  show ps: "projectState w' = projectState w" using fr by (simp add: push_simps)
  show "projectInput w' = projectInput w" using fr by (simp add: push_simps)
  show "alerts w' = alerts w" using fr by (simp add: push_simps)
  show len: "length (projectLists w') = length (projectLists w)" using fr by (simp add: push_simps)
  show "map type' (projectLists w') = map type' (projectLists w)" using fr by (simp add: push_simps)
  show "length (arrays w) \<le> length (arrays w')" by (simp add: ext push_simps)
  show "wf w'"
    using fr assms(2) p by (simp add: wf_def ps len ext push_simps)
  show "stored w' = stored w @ [?new]"
    using p push_stored[OF p, of ?new] by (simp add: stored_def ps ext nth_append push_simps)
  show "arrays w' ! a = arrays w ! a" if "a < length (arrays w)" and "a \<noteq> ?p" for a
    using that by (simp add: ext nth_append push_simps push_other)
qed

text \<open>
  Claim C1. Every call of \<open>addProject\<close> in a well-formed state of the page (every state
  the program reaches is one, \<open>reachable_wf_Active\<close> below) returns, and the store's list
  afterwards is the list before with one record appended at its end: the record made from
  the arguments, with status \<open>Active\<close> and the identifier printed from this call's random
  number. The length grows by exactly one and the earlier records keep their values and
  positions.
\<close>

theorem addProject_appends:
  assumes "wf w"
  shows "\<exists>w'. addProject rt r ttl dsc ppl w = Some w' \<and>
           stored w' = stored w @
             [\<lparr>id' = Number_toString rt r, title = ttl, description = dsc, people = ppl,
               status = Active\<rparr>] \<and>
           length (stored w') = Suc (length (stored w)) \<and>
           take (length (stored w)) (stored w') = stored w \<and>
           projects (projectState w') = projects (projectState w)"
proof -
  from addProject_returns[OF assms] obtain w' where
    a: "addProject rt r ttl dsc ppl w = Some w'" by blast
  note fr = addProject_frame[OF a assms]
  have "stored w' = stored w @
             [\<lparr>id' = Number_toString rt r, title = ttl, description = dsc, people = ppl,
               status = Active\<rparr>]" by (rule fr(7))
  moreover from this have "length (stored w') = Suc (length (stored w))" by simp
  moreover from \<open>stored w' = _\<close> have "take (length (stored w)) (stored w') = stored w" by simp
  moreover have "projects (projectState w') = projects (projectState w)" by (simp add: fr(1))
  ultimately show ?thesis using a by blast
qed


section \<open>The program at its start\<close>

lemma relevant_simps:
  "relevant active = (\<lambda>p. status p = Active)"
  "relevant finished = (\<lambda>p. status p = Finished)"
  by (simp_all add: relevant_def fun_eq_iff)

lemma main_eq:
  "main =
     \<lparr>arrays = [[], [], []],
      projectState = \<lparr>listeners = [ListListener 0, ListListener 1], projects = 0\<rparr>,
      projectLists =
        [\<lparr>type' = active, assignedProjects = 1,
          section_id = type_str active @ js ''-projects'',
          section_h2 = toUpperCase (type_str active) @ js '' PROJECTS'',
          ul_id = list_id active, ul_children = [], ul_droppable = False\<rparr>,
         \<lparr>type' = finished, assignedProjects = 2,
          section_id = type_str finished @ js ''-projects'',
          section_h2 = toUpperCase (type_str finished) @ js '' PROJECTS'',
          ul_id = list_id finished, ul_children = [], ul_droppable = False\<rparr>],
      projectInput = project_input_template, alerts = [], calls = []\<rparr>"
  by (simp add: main_def new_ProjectState_def new_ProjectInput_def new_ProjectList_def
      new_array_def addListener_def project_list_template_def Let_def)

lemma wf_main: "wf main"
  by (simp add: main_eq wf_def lists_ok_def)

lemma main_simps:
  "stored main = []"
  "listeners (projectState main) = [ListListener 0, ListListener 1]"
  "calls main = []"
  "alerts main = []"
  "length (arrays main) = 3"
  "type' (projectLists main ! 0) = active"
  "type' (projectLists main ! Suc 0) = finished"
  by (simp_all add: main_eq stored_def)

lemma sample_prints_digit:
  "Number_toString sample_runtime (Finite 0) = js ''0''"
  "Number_toString sample_runtime (Finite 3) = js ''3''"
  by (simp_all add: sample_runtime_def show_nat_digit js_def)

theorem addProject_appends_witness:
  "wf main \<and>
   (\<exists>w'. addProject sample_runtime (Finite 0) (js ''Build API'') (js ''Implement REST endpoints'')
            (Finite 3) main = Some w' \<and>
          stored w' =
            [\<lparr>id' = js ''0'', title = js ''Build API'',
              description = js ''Implement REST endpoints'', people = Finite 3,
              status = Active\<rparr>] \<and>
          length (stored w') = 1)"
  using addProject_appends[OF wf_main, of sample_runtime "Finite 0" "js ''Build API''"
      "js ''Implement REST endpoints''" "Finite 3"] wf_main
  by (auto simp: main_simps sample_prints_digit)

text \<open>
  Claim C2. \<open>addProject\<close> calls every registered listener, once each and in the order of
  registration, before it returns: starting from the state after the \<open>push\<close>, the
  \<open>k\<close>-th listener is invoked (\<open>invoke\<close>) with the slice just taken of the store's
  array, and its call yields the next state, the last of which is the state \<open>addProject\<close>
  returns. The slice is an array of its own that did not exist before (so it is not the
  store's array) and holds the store's full list when the listener is called and still
  when \<open>addProject\<close> returns. Every listener's list has kept, as its assigned projects,
  an array made during the call that holds the part of the full list matching its type.
  A later \<open>addProject\<close> changes the store's list and leaves every one of the arrays
  handed over as it was.
\<close>

theorem addProject_notifies_with_copies:
  assumes "wf w"
  shows "\<exists>w' snaps ws.
           addProject rt r ttl dsc ppl w = Some w' \<and>
           stored w' = stored w @
             [\<lparr>id' = Number_toString rt r, title = ttl, description = dsc, people = ppl,
               status = Active\<rparr>] \<and>
           length snaps = length (listeners (projectState w)) \<and>
           length ws = Suc (length (listeners (projectState w))) \<and>
           ws ! 0 = push (projects (projectState w))
                      \<lparr>id' = Number_toString rt r, title = ttl, description = dsc, people = ppl,
                       status = Active\<rparr> w \<and>
           ws ! length (listeners (projectState w)) = w' \<and>
           (\<forall>k<length (listeners (projectState w)).
              snaps ! k = fst (slice (projects (projectState (ws ! k))) (ws ! k)) \<and>
              arrays (snd (slice (projects (projectState (ws ! k))) (ws ! k))) ! (snaps ! k) =
                stored w' \<and>
              invoke rt (listeners (projectState w) ! k) (snaps ! k)
                ((snd (slice (projects (projectState (ws ! k))) (ws ! k)))
                   \<lparr>calls := calls (ws ! k) @ [(listeners (projectState w) ! k, snaps ! k)]\<rparr>) =
                Some (ws ! Suc k)) \<and>
           (\<forall>c. ListListener c \<in> set (listeners (projectState w)) \<longrightarrow>
              length (arrays w) \<le> assignedProjects (projectLists w' ! c) \<and>
              assignedProjects (projectLists w' ! c) < length (arrays w') \<and>
              arrays w' ! assignedProjects (projectLists w' ! c) =
                filter (relevant (type' (projectLists w ! c))) (stored w')) \<and>
           calls w' = calls w @ zip (listeners (projectState w)) snaps \<and>
           distinct snaps \<and>
           list_all (\<lambda>a. length (arrays w) \<le> a \<and> a < length (arrays w') \<and>
                          a \<noteq> projects (projectState w') \<and> arrays w' ! a = stored w') snaps \<and>
           (\<forall>r2 ttl2 dsc2 ppl2. \<exists>w''.
              addProject rt r2 ttl2 dsc2 ppl2 w' = Some w'' \<and> stored w'' \<noteq> stored w' \<and>
              list_all (\<lambda>a. arrays w'' ! a = arrays w' ! a) snaps)"
proof -
  let ?p = "projects (projectState w)"
  let ?ls = "listeners (projectState w)"
  let ?new = "\<lparr>id' = Number_toString rt r, title = ttl, description = dsc, people = ppl,
               status = Active\<rparr>"
  let ?w1 = "push ?p ?new w"
  from addProject_returns[OF assms] obtain w' where
    a: "addProject rt r ttl dsc ppl w = Some w'" by blast
  note fr = addProject_frame[OF a assms]
  have p: "?p < length (arrays w)" using assms by (simp add: wf_def)
  have n: "notify rt ?ls ?w1 = Some w'"
    using a by (simp add: addProject_notify)
  have st: "stored ?w1 = stored w'"
    using push_stored[OF p, of ?new] fr(7) by simp
  from notify_run[OF n wf_push[OF assms]] obtain snaps ws where
    len: "length snaps = length ?ls" and
    lws: "length ws = Suc (length ?ls)" and
    w0: "ws ! 0 = ?w1" and
    wn: "ws ! length ?ls = w'" and
    run: "\<forall>k<length ?ls.
              snaps ! k = fst (slice (projects (projectState (ws ! k))) (ws ! k)) \<and>
              arrays (snd (slice (projects (projectState (ws ! k))) (ws ! k))) ! (snaps ! k) =
                stored w' \<and>
              invoke rt (?ls ! k) (snaps ! k)
                ((snd (slice (projects (projectState (ws ! k))) (ws ! k)))
                   \<lparr>calls := calls (ws ! k) @ [(?ls ! k, snaps ! k)]\<rparr>) = Some (ws ! Suc k)" and
    cs: "calls w' = calls ?w1 @ zip ?ls snaps" and
    d: "distinct snaps" and
    al: "list_all (\<lambda>a. length (arrays ?w1) \<le> a \<and> a < length (arrays w') \<and>
                        arrays w' ! a = stored w') snaps"
    unfolding st by blast
  have al': "list_all (\<lambda>a. length (arrays w) \<le> a \<and> a < length (arrays w') \<and>
                        a \<noteq> projects (projectState w') \<and> arrays w' ! a = stored w') snaps"
    using al p by (auto simp: list_all_iff push_simps fr(1))
  have asg: "length (arrays w) \<le> assignedProjects (projectLists w' ! c) \<and>
             assignedProjects (projectLists w' ! c) < length (arrays w') \<and>
             arrays w' ! assignedProjects (projectLists w' ! c) =
               filter (relevant (type' (projectLists w ! c))) (stored w')"
    if "ListListener c \<in> set ?ls" for c
  proof -
    have c: "c < length (projectLists ?w1)"
      using assms that by (auto simp: wf_def list_all_iff push_simps)
    from notify_assigned[OF n wf_push[OF assms] c] that show ?thesis
      by (simp add: push_simps st)
  qed
  have later: "\<exists>w''. addProject rt r2 ttl2 dsc2 ppl2 w' = Some w'' \<and> stored w'' \<noteq> stored w' \<and>
                 list_all (\<lambda>a. arrays w'' ! a = arrays w' ! a) snaps" for r2 ttl2 dsc2 ppl2
  proof -
    from addProject_returns[OF fr(6)] obtain w'' where
      b: "addProject rt r2 ttl2 dsc2 ppl2 w' = Some w''" by blast
    note fr2 = addProject_frame[OF b fr(6)]
    have "stored w'' \<noteq> stored w'" by (simp add: fr2(7))
    moreover have "list_all (\<lambda>a. arrays w'' ! a = arrays w' ! a) snaps"
      using al' fr2(9) by (auto simp: list_all_iff)
    ultimately show ?thesis using b by blast
  qed
  have cs': "calls w' = calls w @ zip ?ls snaps"
    using cs by (simp add: push_simps)
  show ?thesis
    apply (rule exI[of _ w'], rule exI[of _ snaps], rule exI[of _ ws])
    using a fr(7) len lws w0 wn run asg cs' d al' later
    apply (intro conjI)
    apply (assumption | blast)+
    done
qed

theorem addProject_notifies_with_copies_witness:
  "wf main \<and>
   (\<exists>w' snaps. addProject sample_runtime (Finite 0) (js ''Build API'')
                  (js ''Implement REST endpoints'') (Finite 3) main = Some w' \<and>
      length snaps = 2 \<and>
      calls w' = zip [ListListener 0, ListListener 1] snaps \<and>
      distinct snaps \<and>
      list_all (\<lambda>a. 3 \<le> a \<and> a < length (arrays w') \<and> a \<noteq> projects (projectState w') \<and>
                     arrays w' ! a = stored w') snaps \<and>
      arrays w' ! assignedProjects (projectLists w' ! 0) =
        [\<lparr>id' = js ''0'', title = js ''Build API'',
          description = js ''Implement REST endpoints'', people = Finite 3, status = Active\<rparr>] \<and>
      arrays w' ! assignedProjects (projectLists w' ! 1) = [] \<and>
      (\<forall>r2 ttl2 dsc2 ppl2. \<exists>w''.
         addProject sample_runtime r2 ttl2 dsc2 ppl2 w' = Some w'' \<and> stored w'' \<noteq> stored w' \<and>
         list_all (\<lambda>a. arrays w'' ! a = arrays w' ! a) snaps))"
proof -
  let ?new = "\<lparr>id' = js ''0'', title = js ''Build API'',
          description = js ''Implement REST endpoints'', people = Finite 3, status = Active\<rparr>"
  let ?ls = "listeners (projectState main)"
  from addProject_notifies_with_copies[OF wf_main, of sample_runtime "Finite 0" "js ''Build API''"
      "js ''Implement REST endpoints''" "Finite 3"]
  obtain w' snaps where
    a: "addProject sample_runtime (Finite 0) (js ''Build API'')
          (js ''Implement REST endpoints'') (Finite 3) main = Some w'" and
    s0: "stored w' = stored main @
           [\<lparr>id' = Number_toString sample_runtime (Finite 0), title = js ''Build API'',
             description = js ''Implement REST endpoints'', people = Finite 3,
             status = Active\<rparr>]" and
    len0: "length snaps = length ?ls" and
    asg: "\<forall>c. ListListener c \<in> set ?ls \<longrightarrow>
              length (arrays main) \<le> assignedProjects (projectLists w' ! c) \<and>
              assignedProjects (projectLists w' ! c) < length (arrays w') \<and>
              arrays w' ! assignedProjects (projectLists w' ! c) =
                filter (relevant (type' (projectLists main ! c))) (stored w')" and
    cs0: "calls w' = calls main @ zip ?ls snaps" and
    d: "distinct snaps" and
    al0: "list_all (\<lambda>a. length (arrays main) \<le> a \<and> a < length (arrays w') \<and>
                     a \<noteq> projects (projectState w') \<and> arrays w' ! a = stored w') snaps" and
    later: "\<forall>r2 ttl2 dsc2 ppl2. \<exists>w''.
         addProject sample_runtime r2 ttl2 dsc2 ppl2 w' = Some w'' \<and> stored w'' \<noteq> stored w' \<and>
         list_all (\<lambda>a. arrays w'' ! a = arrays w' ! a) snaps"
    by blast
  have s: "stored w' = [?new]"
    using s0 by (simp add: main_simps sample_prints_digit)
  have len: "length snaps = 2"
    using len0 by (simp add: main_simps)
  have cs: "calls w' = zip [ListListener 0, ListListener 1] snaps"
    using cs0 by (simp add: main_simps)
  have al: "list_all (\<lambda>a. 3 \<le> a \<and> a < length (arrays w') \<and> a \<noteq> projects (projectState w') \<and>
                     arrays w' ! a = stored w') snaps"
    using al0 by (simp add: main_simps)
  from asg[rule_format, of 0] s
  have x0: "arrays w' ! assignedProjects (projectLists w' ! 0) = [?new]"
    by (simp add: main_simps relevant_simps)
  from asg[rule_format, of 1] s
  have x1: "arrays w' ! assignedProjects (projectLists w' ! 1) = []"
    by (simp add: main_simps relevant_simps)
  show ?thesis
    apply (rule conjI[OF wf_main])
    apply (rule exI[of _ w'], rule exI[of _ snaps])
    using a len cs d al x0 x1 later
    apply (intro conjI)
    apply assumption+
    done
qed


section \<open>What the lists show\<close>

lemma project_ProjectItem_of: "project (ProjectItem_of rt prj) = prj"
  by (simp add: ProjectItem_of_def renderContent_def)

lemma map_project_items: "map (project \<circ> ProjectItem_of rt) ps = ps"
  by (induction ps) (simp_all add: project_ProjectItem_of)

text \<open>
  Claim C8. When \<open>addProject\<close> notifies, every list component whose listener is
  registered ends up showing exactly one item per stored project whose status matches the
  list's type, in the store's order, whatever it showed before: the projects of its items
  are the \<open>Active\<close> ones for the list of type \<open>active\<close> and the \<open>Finished\<close> ones for the
  list of type \<open>finished\<close>. So the project just added is the last item of an \<open>active\<close>
  list and is in no \<open>finished\<close> list.
\<close>

theorem lists_render_matching_projects:
  assumes "wf w" and "ListListener c \<in> set (listeners (projectState w))"
  shows "\<exists>w' new. addProject rt r ttl dsc ppl w = Some w' \<and>
           new = \<lparr>id' = Number_toString rt r, title = ttl, description = dsc, people = ppl,
                  status = Active\<rparr> \<and>
           stored w' = stored w @ [new] \<and>
           type' (projectLists w' ! c) = type' (projectLists w ! c) \<and>
           ul_children (projectLists w' ! c) =
             map (ProjectItem_of rt) (filter (relevant (type' (projectLists w ! c))) (stored w')) \<and>
           (type' (projectLists w ! c) = active \<longrightarrow>
              map project (ul_children (projectLists w' ! c)) =
                filter (\<lambda>p. status p = Active) (stored w) @ [new]) \<and>
           (type' (projectLists w ! c) = finished \<longrightarrow>
              map project (ul_children (projectLists w' ! c)) =
                filter (\<lambda>p. status p = Finished) (stored w) \<and>
              new \<notin> set (map project (ul_children (projectLists w' ! c))))"
proof -
  let ?p = "projects (projectState w)"
  let ?new = "\<lparr>id' = Number_toString rt r, title = ttl, description = dsc, people = ppl,
               status = Active\<rparr>"
  let ?w1 = "push ?p ?new w"
  let ?t = "type' (projectLists w ! c)"
  from addProject_returns[OF assms(1)] obtain w' where
    a: "addProject rt r ttl dsc ppl w = Some w'" by blast
  note fr = addProject_frame[OF a assms(1)]
  have p: "?p < length (arrays w)" using assms(1) by (simp add: wf_def)
  have c: "c < length (projectLists w)"
    using assms by (auto simp: wf_def list_all_iff)
  have n: "notify rt (listeners (projectState w)) ?w1 = Some w'"
    using a by (simp add: addProject_notify)
  have c1: "c < length (projectLists ?w1)" using c by (simp add: push_simps)
  have st: "stored ?w1 = stored w'"
    using push_stored[OF p, of ?new] fr(7) by simp
  have ch: "ul_children (projectLists w' ! c) =
              map (ProjectItem_of rt) (filter (relevant ?t) (stored w'))"
    using notify_render[OF n wf_push[OF assms(1)] c1] assms(2) by (simp add: push_simps st)
  have "map type' (projectLists w') ! c = map type' (projectLists w) ! c"
    by (simp only: fr(5))
  then have ty: "type' (projectLists w' ! c) = ?t"
    using c fr(4) by simp
  have act: "map project (ul_children (projectLists w' ! c)) =
               filter (\<lambda>p. status p = Active) (stored w) @ [?new]" if "?t = active"
    using that by (simp add: ch map_project_items fr(7) relevant_simps project_ProjectItem_of)
  have fin: "map project (ul_children (projectLists w' ! c)) =
               filter (\<lambda>p. status p = Finished) (stored w) \<and>
             ?new \<notin> set (map project (ul_children (projectLists w' ! c)))" if "?t = finished"
    using that by (simp add: ch map_project_items fr(7) relevant_simps)
  from a fr(7) ty ch act fin show ?thesis by blast
qed

theorem lists_render_matching_projects_witness:
  "wf main \<and> ListListener 0 \<in> set (listeners (projectState main)) \<and>
   ListListener 1 \<in> set (listeners (projectState main)) \<and>
   (\<exists>w'. addProject sample_runtime (Finite 0) (js ''Build API'')
            (js ''Implement REST endpoints'') (Finite 3) main = Some w' \<and>
      map project (ul_children (projectLists w' ! 0)) =
        [\<lparr>id' = js ''0'', title = js ''Build API'',
          description = js ''Implement REST endpoints'', people = Finite 3, status = Active\<rparr>] \<and>
      ul_children (projectLists w' ! 1) = [])"
proof -
  have l0: "ListListener 0 \<in> set (listeners (projectState main))"
    and l1: "ListListener 1 \<in> set (listeners (projectState main))"
    by (simp_all add: main_simps)
  from lists_render_matching_projects[OF wf_main l0, of sample_runtime "Finite 0"
      "js ''Build API''" "js ''Implement REST endpoints''" "Finite 3"]
  obtain w' where
    a: "addProject sample_runtime (Finite 0) (js ''Build API'')
          (js ''Implement REST endpoints'') (Finite 3) main = Some w'" and
    s: "stored w' = [\<lparr>id' = js ''0'', title = js ''Build API'',
          description = js ''Implement REST endpoints'', people = Finite 3, status = Active\<rparr>]" and
    x0: "map project (ul_children (projectLists w' ! 0)) =
        [\<lparr>id' = js ''0'', title = js ''Build API'',
          description = js ''Implement REST endpoints'', people = Finite 3, status = Active\<rparr>]"
    by (auto simp: main_simps sample_prints_digit)
  from lists_render_matching_projects[OF wf_main l1, of sample_runtime "Finite 0"
      "js ''Build API''" "js ''Implement REST endpoints''" "Finite 3"] a s
  have x1: "ul_children (projectLists w' ! 1) = []"
    by (simp add: main_simps relevant_simps)
  from a x0 x1 wf_main l0 l1 show ?thesis by simp
qed

section \<open>The header of an item\<close>

text \<open>
  Claim C10. \<open>renderContent\<close> writes into the \<open>h3\<close> of an item the text
  \<open>1 Person assigned\<close> when the project's people count is \<open>1\<close>, and for every other count
  the printed count followed by \<open> Persons assigned\<close>.
\<close>

theorem header_pluralized:
  "(people (project this) = Finite 1 \<longrightarrow>
      li_h3 (element (renderContent rt this)) = js ''1 Person assigned'') \<and>
   (people (project this) \<noteq> Finite 1 \<longrightarrow>
      li_h3 (element (renderContent rt this)) =
        Number_toString rt (people (project this)) @ js '' Persons assigned'')"
  by (simp add: renderContent_def persons_def js_def)

theorem header_pluralized_witness:
  "li_h3 (element (ProjectItem_of sample_runtime
      \<lparr>id' = js ''0'', title = js ''Build API'', description = js ''Implement REST endpoints'',
       people = Finite 1, status = Active\<rparr>)) = js ''1 Person assigned'' \<and>
   li_h3 (element (ProjectItem_of sample_runtime
      \<lparr>id' = js ''0'', title = js ''Build API'', description = js ''Implement REST endpoints'',
       people = Finite 3, status = Active\<rparr>)) = js ''3 Persons assigned''"
  using header_pluralized[of "\<lparr>project = \<lparr>id' = js ''0'', title = js ''Build API'',
            description = js ''Implement REST endpoints'', people = Finite 1, status = Active\<rparr>,
          element = import_single_project (js ''0'')\<rparr>" sample_runtime]
        header_pluralized[of "\<lparr>project = \<lparr>id' = js ''0'', title = js ''Build API'',
            description = js ''Implement REST endpoints'', people = Finite 3, status = Active\<rparr>,
          element = import_single_project (js ''0'')\<rparr>" sample_runtime]
  by (simp add: ProjectItem_of_def sample_prints_digit js_def)


section \<open>Submitting the form\<close>

lemma description_too_short:
  "length dsc \<le> 5 \<Longrightarrow> \<not> validate rt (descriptionValidation dsc)"
  by (simp add: validate_string descriptionValidation_def js_gt_def length_of_def)

lemma people_out_of_range:
  "js_lt ppl (Finite 1) \<or> js_gt ppl (Finite 5) \<or> ppl = NaN \<Longrightarrow>
   \<not> validate rt (peopleValidation ppl)"
  by (cases ppl) (auto simp: validate_number peopleValidation_def js_lt_def js_gt_def js_ge_def js_le_def)

text \<open>
  Claim C7. When one of the three validations of \<open>gatherUserInput\<close> fails,
  \<open>submitHandler\<close> returns after one \<open>alert\<close> with the text
  \<open>Invalid input, please try again\<close> and nothing else has changed: the store and its
  array, every other array, the lists and the three fields are as before.
\<close>

theorem submit_invalid_alerts_only:
  assumes "\<not> validate rt (titleValidation (titleInputElement (projectInput w))) \<or>
           \<not> validate rt (descriptionValidation (descriptionInputElement (projectInput w))) \<or>
           \<not> validate rt (peopleValidation (StringToNumber rt (peopleInputElement (projectInput w))))"
  shows "submitHandler rt r w =
           Some (w\<lparr>alerts := alerts w @ [js ''Invalid input, please try again'']\<rparr>) \<and>
         (\<exists>w'. submitHandler rt r w = Some w' \<and>
            alerts w' = alerts w @ [js ''Invalid input, please try again''] \<and>
            projectState w' = projectState w \<and> arrays w' = arrays w \<and> stored w' = stored w \<and>
            projectLists w' = projectLists w \<and> projectInput w' = projectInput w)"
  using assms by (auto simp: submitHandler_def gatherUserInput_def Let_def stored_def)

lemma sample_reads_digit:
  "StringToNumber sample_runtime (js ''6'') = Finite 6"
  "StringToNumber sample_runtime (js ''3'') = Finite 3"
  by (simp_all add: sample_runtime_def sample_toNumber_def trim_def isWhiteSpace_def
      is_digit_def read_nat_def js_def)

theorem submit_invalid_alerts_only_witness:
  "\<not> validate sample_runtime (descriptionValidation (js ''hi'')) \<and>
   submitHandler sample_runtime (Finite 0)
     (main\<lparr>projectInput := \<lparr>titleInputElement = js ''Build API'',
        descriptionInputElement = js ''hi'', peopleInputElement = js ''3''\<rparr>\<rparr>) =
   Some (main\<lparr>projectInput := \<lparr>titleInputElement = js ''Build API'',
        descriptionInputElement = js ''hi'', peopleInputElement = js ''3''\<rparr>,
      alerts := [js ''Invalid input, please try again'']\<rparr>) \<and>
   \<not> validate sample_runtime (peopleValidation (StringToNumber sample_runtime (js ''6''))) \<and>
   submitHandler sample_runtime (Finite 0)
     (main\<lparr>projectInput := \<lparr>titleInputElement = js ''Build API'',
        descriptionInputElement = js ''Implement REST endpoints'',
        peopleInputElement = js ''6''\<rparr>\<rparr>) =
   Some (main\<lparr>projectInput := \<lparr>titleInputElement = js ''Build API'',
        descriptionInputElement = js ''Implement REST endpoints'',
        peopleInputElement = js ''6''\<rparr>,
      alerts := [js ''Invalid input, please try again'']\<rparr>)"
proof -
  let ?hi = "main\<lparr>projectInput := \<lparr>titleInputElement = js ''Build API'',
        descriptionInputElement = js ''hi'', peopleInputElement = js ''3''\<rparr>\<rparr>"
  let ?six = "main\<lparr>projectInput := \<lparr>titleInputElement = js ''Build API'',
        descriptionInputElement = js ''Implement REST endpoints'',
        peopleInputElement = js ''6''\<rparr>\<rparr>"
  have d: "\<not> validate sample_runtime (descriptionValidation (js ''hi''))"
    by (rule description_too_short) (simp add: js_def)
  have p: "\<not> validate sample_runtime (peopleValidation (StringToNumber sample_runtime (js ''6'')))"
    by (rule people_out_of_range) (simp add: sample_reads_digit js_gt_def)
  from submit_invalid_alerts_only[of sample_runtime ?hi "Finite 0"] d
  have a: "submitHandler sample_runtime (Finite 0) ?hi =
             Some (?hi\<lparr>alerts := [js ''Invalid input, please try again'']\<rparr>)"
    by (simp add: main_simps)
  from submit_invalid_alerts_only[of sample_runtime ?six "Finite 0"] p
  have b: "submitHandler sample_runtime (Finite 0) ?six =
             Some (?six\<lparr>alerts := [js ''Invalid input, please try again'']\<rparr>)"
    by (simp add: main_simps)
  from a b d p show ?thesis by simp
qed


section \<open>Reachable states\<close>

lemma submitHandler_step:
  assumes "submitHandler rt r w = Some w'" and "wf w"
  shows "wf w' \<and>
         (stored w' = stored w \<or> (\<exists>new. status new = Active \<and> stored w' = stored w @ [new]))"
proof (cases "fst (gatherUserInput rt w)")
  case None
  then have "w' = w\<lparr>alerts := alerts w @ [js ''Invalid input, please try again'']\<rparr>"
    using assms(1)
    by (auto simp: submitHandler_def gatherUserInput_def Let_def split: if_splits)
  then show ?thesis using assms(2) by (simp add: wf_def stored_def)
next
  case (Some u)
  obtain ttl dsc ppl where u: "u = (ttl, dsc, ppl)" by (cases u)
  from Some u have g: "gatherUserInput rt w = (Some (ttl, dsc, ppl), w)"
    by (auto simp: gatherUserInput_def Let_def split: if_splits)
  then obtain w2 where a: "addProject rt r ttl dsc ppl w = Some w2" and w': "w' = clearInputs w2"
    using assms(1) by (auto simp: submitHandler_def split: option.splits)
  note fr = addProject_frame[OF a assms(2)]
  have "wf w'" using fr(6) by (simp add: w' wf_def clearInputs_def)
  moreover have "stored w' = stored w @
           [\<lparr>id' = Number_toString rt r, title = ttl, description = dsc, people = ppl,
             status = Active\<rparr>]"
    using fr(7) by (simp add: w' stored_def clearInputs_def)
  ultimately show ?thesis by simp
qed

lemma handle_step:
  assumes "handle rt e w = Some w'" and "wf w"
  shows "wf w' \<and>
         (stored w' = stored w \<or> (\<exists>new. status new = Active \<and> stored w' = stored w @ [new]))"
proof (cases e)
  case (Submit r)
  with assms show ?thesis using submitHandler_step[of rt r w w'] by simp
next
  case (DragOver c types)
  with assms show ?thesis
    by (auto simp: dragOverHandler_def wf_def stored_def lists_ok_update
        split: if_splits option.splits list.splits)
next
  case (DragLeave c)
  with assms show ?thesis
    by (auto simp: dragLeaveHandler_def wf_def stored_def lists_ok_update split: if_splits)
qed (use assms in \<open>auto simp: wf_def stored_def dragEndHandler_def dropHandler_def split: if_splits\<close>)

lemma reachable_wf_Active:
  "reachable rt w \<Longrightarrow> wf w \<and> list_all (\<lambda>p. status p = Active) (stored w)"
proof (induction rule: reachable.induct)
  case reachable_main
  show ?case by (simp add: wf_main main_simps)
next
  case (reachable_step w e w')
  with handle_step[of rt e w w'] show ?case by auto
qed

text \<open>
  Claim C9. In every state the page can reach, every project the store holds has status
  \<open>Active\<close>. No event changes a stored project: whatever the page does next, the store's
  list afterwards begins with the list as it was; and the drop handler changes nothing at
  all.
\<close>

theorem stored_projects_always_Active:
  assumes "reachable rt w"
  shows "list_all (\<lambda>p. status p = Active) (stored w) \<and>
         (\<forall>e w'. handle rt e w = Some w' \<longrightarrow> take (length (stored w)) (stored w') = stored w) \<and>
         (\<forall>c. handle rt (Drop c) w = Some w \<or> handle rt (Drop c) w = None) \<and>
         (\<forall>c. dropHandler c w = w)"
proof -
  from reachable_wf_Active[OF assms] have wf: "wf w"
    and act: "list_all (\<lambda>p. status p = Active) (stored w)" by simp_all
  have "take (length (stored w)) (stored w') = stored w" if "handle rt e w = Some w'" for e w'
    using handle_step[OF that wf] by auto
  then show ?thesis using act by (auto simp: dropHandler_def)
qed

theorem stored_projects_always_Active_witness:
  "\<exists>w. reachable sample_runtime w \<and> length (stored w) = 1 \<and>
       list_all (\<lambda>p. status p = Active) (stored w)"
proof -
  define w1 where "w1 = main\<lparr>projectInput := (projectInput main)\<lparr>titleInputElement := js ''Build API''\<rparr>\<rparr>"
  define w2 where "w2 = w1\<lparr>projectInput := (projectInput w1)
               \<lparr>descriptionInputElement := js ''Implement REST endpoints''\<rparr>\<rparr>"
  define w3 where "w3 = w2\<lparr>projectInput := (projectInput w2)\<lparr>peopleInputElement := js ''3''\<rparr>\<rparr>"
  have r1: "reachable sample_runtime w1"
    by (rule reachable_step[OF reachable_main, of _ "EditTitle (js ''Build API'')"])
       (simp add: w1_def)
  have r2: "reachable sample_runtime w2"
    by (rule reachable_step[OF r1, of "EditDescription (js ''Implement REST endpoints'')"])
       (simp add: w2_def)
  have r3: "reachable sample_runtime w3"
    by (rule reachable_step[OF r2, of "EditPeople (js ''3'')"]) (simp add: w3_def)
  have wf3: "wf w3" using wf_main by (simp add: wf_def w3_def w2_def w1_def)
  have inputs: "titleInputElement (projectInput w3) = js ''Build API''"
    "descriptionInputElement (projectInput w3) = js ''Implement REST endpoints''"
    "peopleInputElement (projectInput w3) = js ''3''"
    by (simp_all add: w3_def w2_def w1_def)
  have v1: "validate sample_runtime (titleValidation (js ''Build API''))"
    by (simp add: validate_string titleValidation_def trim_def isWhiteSpace_def js_def)
  have v2: "validate sample_runtime (descriptionValidation (js ''Implement REST endpoints''))"
    by (simp add: validate_string descriptionValidation_def trim_def isWhiteSpace_def js_def
        js_gt_def length_of_def)
  have v3: "validate sample_runtime (peopleValidation (StringToNumber sample_runtime (js ''3'')))"
    unfolding sample_reads_digit
    by (simp add: validate_number peopleValidation_def sample_prints_digit
        js_ge_def js_le_def trim_def isWhiteSpace_def js_def)
  have g: "gatherUserInput sample_runtime w3 =
             (Some (js ''Build API'', js ''Implement REST endpoints'', Finite 3), w3)"
    unfolding gatherUserInput_def inputs Let_def using v1 v2 v3
    by (simp add: sample_reads_digit)
  from addProject_returns[OF wf3, of sample_runtime "Finite 0" "js ''Build API''"
      "js ''Implement REST endpoints''" "Finite 3"]
  obtain w4 where a: "addProject sample_runtime (Finite 0) (js ''Build API'')
      (js ''Implement REST endpoints'') (Finite 3) w3 = Some w4" by blast
  have s: "submitHandler sample_runtime (Finite 0) w3 = Some (clearInputs w4)"
    unfolding submitHandler_def g using a by simp
  have r4: "reachable sample_runtime (clearInputs w4)"
    by (rule reachable_step[OF r3, of "Submit (Finite 0)"]) (simp add: s)
  have "stored w3 = []" using main_simps(1) by (simp add: stored_def w3_def w2_def w1_def)
  with addProject_frame(7)[OF a wf3] have "length (stored (clearInputs w4)) = 1"
    by (simp add: stored_def clearInputs_def)
  with r4 stored_projects_always_Active[OF r4] show ?thesis by blast
qed


end
